theory Spec2Isabelle
  imports Complex_Main "HOL-Library.Word" "HOL-Library.Log_Nat" "HOL-Library.Multiset"
begin

unbundle bit_operations_syntax

section \<open>Strings of UTF-16 code units\<close>

text \<open>
  A JavaScript string is a sequence of 16-bit code units; \<open>length\<close>, \<open>split\<close>,
  \<open>trim\<close> and the regular expressions of the services (none carries the \<open>u\<close> flag)
  all work on code units.
\<close>

type_synonym jschar = "16 word"
type_synonym jsstring = "jschar list"

definition ascii :: "string \<Rightarrow> jsstring" where
  "ascii s = map of_char s"

definition LF :: jschar where
  "LF = 10"

definition SP :: jschar where
  "SP = 32"

text \<open>
  The class \<open>\s\<close> and the characters removed by \<open>String.prototype.trim\<close> are the same
  set: WhiteSpace (TAB, VT, FF, SP, NBSP, ZWNBSP and the category Zs) and LineTerminator
  (LF, CR, LS, PS).
\<close>

definition isSpace :: "jschar \<Rightarrow> bool" where
  "isSpace c \<longleftrightarrow>
     c = 9 \<or> c = 10 \<or> c = 11 \<or> c = 12 \<or> c = 13 \<or> c = 32 \<or> c = 160 \<or> c = 5760 \<or>
     (8192 \<le> c \<and> c \<le> 8202) \<or> c = 8232 \<or> c = 8233 \<or> c = 8239 \<or> c = 8287 \<or>
     c = 12288 \<or> c = 65279"

definition isDigit :: "jschar \<Rightarrow> bool" where
  "isDigit c \<longleftrightarrow> 48 \<le> c \<and> c \<le> 57"

text \<open>The class \<open>\w\<close>: \<open>[A-Za-z0-9_]\<close>.\<close>

definition isWordChar :: "jschar \<Rightarrow> bool" where
  "isWordChar c \<longleftrightarrow>
     (65 \<le> c \<and> c \<le> 90) \<or> (97 \<le> c \<and> c \<le> 122) \<or> isDigit c \<or> c = 95"

definition trim :: "jsstring \<Rightarrow> jsstring" where
  "trim s = rev (dropWhile isSpace (rev (dropWhile isSpace s)))"

text \<open>A string is truthy when it is not empty.\<close>

definition truthy :: "jsstring \<Rightarrow> bool" where
  "truthy s \<longleftrightarrow> s \<noteq> []"

section \<open>Configuration (config/index.ts, textProcessing and queue)\<close>

definition chunkSize :: nat where
  "chunkSize = 3000"

definition minChunkSize :: nat where
  "minChunkSize = 500"

section \<open>TextAnalyzer\<close>

definition stopwordsJuridicas :: "jsstring list" where
  "stopwordsJuridicas =
     [ascii ''considerando'', ascii ''outrossim'', ascii ''art'', ascii ''artigo'',
      ascii ''par'' @ [225] @ ascii ''grafo'', ascii ''inciso'',
      ascii ''al'' @ [237] @ ascii ''nea'', ascii ''caput'', ascii ''dispositivo'',
      ascii ''normativo'', ascii ''legal'', ascii ''lei'', ascii ''decreto'',
      ascii ''portaria'', ascii ''resolu'' @ [231] @ [227] @ ascii ''o'',
      ascii ''instru'' @ [231] @ [227] @ ascii ''o'', ascii ''normativa'',
      ascii ''regulamento'', ascii ''c'' @ [243] @ ascii ''digo'']"

definition config_legalTerms :: "jsstring list" where
  "config_legalTerms =
     [ascii ''contrato'', ascii ''cl'' @ [225] @ ascii ''usula'',
      ascii ''rescis'' @ [227] @ ascii ''o'',
      ascii ''indeniza'' @ [231] @ [227] @ ascii ''o'', ascii ''multa'',
      ascii ''fiador'', ascii ''locat'' @ [225] @ ascii ''rio'', ascii ''locador'',
      ascii ''devedor'', ascii ''credor'',
      ascii ''obriga'' @ [231] @ [227] @ ascii ''o'', ascii ''direito'', ascii ''dever'',
      ascii ''responsabilidade'', ascii ''prazo'',
      ascii ''notifica'' @ [231] @ [227] @ ascii ''o'',
      ascii ''intima'' @ [231] @ [227] @ ascii ''o'',
      ascii ''cita'' @ [231] @ [227] @ ascii ''o'',
      ascii ''senten'' @ [231] @ ascii ''a'',
      ascii ''ac'' @ [243] @ ascii ''rd'' @ [227] @ ascii ''o'', ascii ''recurso'',
      ascii ''apela'' @ [231] @ [227] @ ascii ''o'', ascii ''agravo'', ascii ''embargo'',
      ascii ''mandado'', ascii ''peti'' @ [231] @ [227] @ ascii ''o'',
      ascii ''contesta'' @ [231] @ [227] @ ascii ''o'',
      ascii ''r'' @ [233] @ ascii ''plica'', ascii ''tr'' @ [233] @ ascii ''plica'',
      ascii ''parecer'', ascii ''laudo'', ascii ''per'' @ [237] @ ascii ''cia'',
      ascii ''prova'', ascii ''testemunha'', ascii ''depoimento'',
      ascii ''jurisprud'' @ [234] @ ascii ''ncia'', ascii ''s'' @ [250] @ ascii ''mula'',
      ascii ''precedente'', ascii ''coisa julgada'',
      ascii ''tr'' @ [226] @ ascii ''nsito em julgado'',
      ascii ''prescri'' @ [231] @ [227] @ ascii ''o'',
      ascii ''decad'' @ [234] @ ascii ''ncia'', ascii ''nulidade'',
      ascii ''anulabilidade'', ascii ''v'' @ [237] @ ascii ''cio'', ascii ''defeito'',
      ascii ''dano'', ascii ''preju'' @ [237] @ ascii ''zo'', ascii ''lucro cessante'',
      ascii ''dano emergente'', ascii ''mora'', ascii ''inadimplemento'',
      ascii ''cumprimento'', ascii ''execu'' @ [231] @ [227] @ ascii ''o'',
      ascii ''penhora'', ascii ''arresto'', ascii ''sequestro'', ascii ''hipoteca'',
      ascii ''penhor'', ascii ''fian'' @ [231] @ ascii ''a'',
      ascii ''cau'' @ [231] @ [227] @ ascii ''o'', ascii ''garantia'']"

text \<open>The stopword set of the constructor: Portuguese common stopwords, then the legal ones.\<close>

definition stopwords :: "jsstring list" where
  "stopwords =
     [ascii ''a'', ascii ''o'', ascii ''e'', ascii ''de'', ascii ''da'', ascii ''do'',
      ascii ''em'', ascii ''para'', ascii ''com'', ascii ''por'', ascii ''que'',
      ascii ''os'', ascii ''as'', ascii ''dos'', ascii ''das'', ascii ''no'',
      ascii ''na'', ascii ''nos'', ascii ''nas'', ascii ''um'', ascii ''uma'',
      ascii ''ao'', [224], ascii ''pelo'', ascii ''pela'', ascii ''este'',
      ascii ''esta'', ascii ''esse'', ascii ''essa'', ascii ''aquele'', ascii ''aquela'',
      ascii ''seu'', ascii ''sua'', ascii ''nosso'', ascii ''nossa'', ascii ''ele'',
      ascii ''ela'', ascii ''eles'', ascii ''elas'']
     @ stopwordsJuridicas"

text \<open>
  \<open>String.prototype.toLowerCase\<close> is the language's Unicode lower-casing; the functions
  that call it take it as the parameter \<open>toLowerCase\<close>.

  The accented letters listed in the character class of \<open>extractWords\<close>, in the order
  of the source.
\<close>

definition accented :: "jschar list" where
  "accented = [224, 225, 226, 227, 228, 233, 232, 234, 235, 237, 236, 238, 239,
               243, 242, 244, 245, 246, 250, 249, 251, 252, 231, 241]"

definition keepChar :: "jschar \<Rightarrow> bool" where
  "keepChar c \<longleftrightarrow> isWordChar c \<or> isSpace c \<or> c \<in> set accented"

text \<open>
  \<open>split(/\s+/)\<close>: every maximal run of white space is a separator; a piece may be
  empty (at the ends of the text).
\<close>

function splitWhitespace :: "jsstring \<Rightarrow> jsstring \<Rightarrow> jsstring list" where
  "splitWhitespace cur [] = [cur]"
| "splitWhitespace cur (c # cs) =
     (if isSpace c
      then cur # splitWhitespace [] (dropWhile isSpace cs)
      else splitWhitespace (cur @ [c]) cs)"
  by pat_completeness auto
termination
  by (relation "measure (\<lambda>(cur, s). length s)")
     (auto simp: le_imp_less_Suc length_dropWhile_le)

definition extractWords :: "(jsstring \<Rightarrow> jsstring) \<Rightarrow> jsstring \<Rightarrow> jsstring list" where
  "extractWords toLowerCase text =
     filter (\<lambda>word. length word > 2 \<and> word \<notin> set stopwords)
       (splitWhitespace [] (map (\<lambda>c. if keepChar c then c else SP) (toLowerCase text)))"

text \<open>
  A JavaScript \<open>Map\<close> from strings to counts, as the list of its entries in insertion
  order: \<open>set\<close> on a key already present keeps the entry's position.
\<close>

type_synonym countMap = "(jsstring \<times> nat) list"

fun mapSet :: "countMap \<Rightarrow> jsstring \<Rightarrow> nat \<Rightarrow> countMap" where
  "mapSet [] k v = [(k, v)]"
| "mapSet ((k', v') # m) k v = (if k' = k then (k, v) # m else (k', v') # mapSet m k v)"

text \<open>\<open>m.get(k) || 0\<close>\<close>

definition getOrZero :: "countMap \<Rightarrow> jsstring \<Rightarrow> nat" where
  "getOrZero m k = (case map_of m k of None \<Rightarrow> 0 | Some c \<Rightarrow> c)"

text \<open>
  \<open>Array.prototype.sort((a, b) => b[1] - a[1])\<close>: a stable sort by descending count.
\<close>

definition sortByCountDesc :: "countMap \<Rightarrow> countMap" where
  "sortByCountDesc entries = sort_key (\<lambda>(k, c). - int c) entries"

definition calculateWordFrequency :: "jsstring list \<Rightarrow> countMap" where
  "calculateWordFrequency words =
     foldl (\<lambda>frequency word. mapSet frequency word (getOrZero frequency word + 1)) [] words"

definition getTopWords :: "countMap \<Rightarrow> nat \<Rightarrow> countMap" where
  "getTopWords frequency limit = take limit (sortByCountDesc frequency)"

definition extractLegalTerms :: "jsstring list \<Rightarrow> countMap" where
  "extractLegalTerms words =
     sortByCountDesc
       (foldl (\<lambda>termFrequency word.
                 if word \<in> set config_legalTerms
                 then mapSet termFrequency word (getOrZero termFrequency word + 1)
                 else termFrequency) [] words)"

record Structure =
  paragraphs :: nat
  articles :: nat
  sections :: nat

text \<open>
  The length of a match of \<open>[Aa]rt\.?\s*\d+\<close> at the head of a string, if there is one.
\<close>

definition articleMatchLength :: "jsstring \<Rightarrow> nat option" where
  "articleMatchLength s =
     (case s of
        a # x # y # r2 \<Rightarrow>
          if (a = 65 \<or> a = 97) \<and> x = 114 \<and> y = 116
          then (let dot = (case r2 of [] \<Rightarrow> 0 | d # _ \<Rightarrow> if d = 46 then 1 else 0);
                    r3 = drop dot r2;
                    ws = length (takeWhile isSpace r3);
                    digits = length (takeWhile isDigit (drop ws r3))
                in if digits > 0 then Some (3 + dot + ws + digits) else None)
          else None
      | _ \<Rightarrow> None)"

text \<open>
  The same for the section pattern \<open>[Ss]e..o\s+[IVX\d]+\<close>, whose third and fourth
  letters are c with cedilla (231) and a with tilde (227).
\<close>

definition sectionMatchLength :: "jsstring \<Rightarrow> nat option" where
  "sectionMatchLength s =
     (case s of
        a # b # c # d # e # r \<Rightarrow>
          if (a = 83 \<or> a = 115) \<and> b = 101 \<and> c = 231 \<and> d = 227 \<and> e = 111
          then (let ws = length (takeWhile isSpace r);
                    numerals = length (takeWhile (\<lambda>x. x = 73 \<or> x = 86 \<or> x = 88 \<or> isDigit x)
                                         (drop ws r))
                in if ws > 0 \<and> numerals > 0 then Some (5 + ws + numerals) else None)
          else None
      | _ \<Rightarrow> None)"

text \<open>
  \<open>(text.match(/\bP/g) || []).length\<close> for a pattern \<open>P\<close> that starts with a word
  character and matches no empty string: the number of matches found from left to
  right, each search resuming where the last match ended. \<open>skip\<close> is the number of
  characters of the last match still to pass, \<open>prevWord\<close> whether the character
  before is of class \<open>\w\<close> (then \<open>\b\<close> fails).
\<close>

fun countMatches :: "(jsstring \<Rightarrow> nat option) \<Rightarrow> nat \<Rightarrow> bool \<Rightarrow> jsstring \<Rightarrow> nat" where
  "countMatches matchLength skip prevWord [] = 0"
| "countMatches matchLength skip prevWord (c # cs) =
     (if skip > 0 then countMatches matchLength (skip - 1) (isWordChar c) cs
      else if prevWord then countMatches matchLength 0 (isWordChar c) cs
      else (case matchLength (c # cs) of
              Some n \<Rightarrow> 1 + countMatches matchLength (n - 1) (isWordChar c) cs
            | None \<Rightarrow> countMatches matchLength 0 (isWordChar c) cs))"

section \<open>ChunkPlanner: createChunks\<close>

text \<open>
  The lookahead \<open>(?=\n\s*[Aa]rt\.?\s*\d+)\<close>, tried at the head of a suffix of the text.
  \<open>\s\<close>, \<open>[Aa]\<close>, \<open>.\<close> and \<open>\d\<close> are pairwise disjoint, so backtracking never finds a
  match that the greedy run misses: skip the LF, skip all white space, read \<open>A\<close> or
  \<open>a\<close>, \<open>r\<close>, \<open>t\<close>, an optional period, skip all white space, and need one digit.
\<close>

definition articleLookahead :: "jsstring \<Rightarrow> bool" where
  "articleLookahead s =
     (case s of
        [] \<Rightarrow> False
      | c # r \<Rightarrow>
          c = LF \<and>
          (case dropWhile isSpace r of
             a # x # y # r2 \<Rightarrow>
               (a = 65 \<or> a = 97) \<and> x = 114 \<and> y = 116 \<and>
               (case dropWhile isSpace (case r2 of [] \<Rightarrow> [] | d # r3 \<Rightarrow> if d = 46 then r3 else r2) of
                  [] \<Rightarrow> False
                | d # _ \<Rightarrow> isDigit d)
           | _ \<Rightarrow> False))"

text \<open>
  \<open>text.split(articlePattern)\<close>. The separator is empty, so \<open>split\<close> cuts the text
  before every position where the lookahead holds, except where the piece under
  construction is still empty (position 0, the ECMAScript test \<open>e = p\<close>). The first
  argument is the piece under construction.
\<close>

fun splitArticles :: "jsstring \<Rightarrow> jsstring \<Rightarrow> jsstring list" where
  "splitArticles cur [] = [cur]"
| "splitArticles cur (c # cs) =
     (if cur \<noteq> [] \<and> articleLookahead (c # cs)
      then cur # splitArticles [c] cs
      else splitArticles (cur @ [c]) cs)"

text \<open>
  \<open>text.split(/\n\n+/)\<close>: every maximal run of two or more LF is a separator and is
  dropped; a piece may be empty (at the ends of the text).
\<close>

function splitParagraphs :: "jsstring \<Rightarrow> jsstring \<Rightarrow> jsstring list" where
  "splitParagraphs cur [] = [cur]"
| "splitParagraphs cur (c # cs) =
     (if c = LF \<and> (case cs of [] \<Rightarrow> False | d # _ \<Rightarrow> d = LF)
      then cur # splitParagraphs [] (dropWhile (\<lambda>d. d = LF) cs)
      else splitParagraphs (cur @ [c]) cs)"
  by pat_completeness auto
termination
  by (relation "measure (\<lambda>(cur, s). length s)")
     (auto simp: le_imp_less_Suc length_dropWhile_le)

text \<open>
  The accumulate-and-flush loop, written twice in the source (once per separator:
  \<open>'\n'\<close> between articles, \<open>'\n\n'\<close> between paragraphs). The second argument is
  \<open>currentChunk\<close>; the list returned is what is pushed on \<open>chunks\<close> from here on,
  the trailing flush included.
\<close>

fun mergeSegments :: "jsstring \<Rightarrow> jsstring \<Rightarrow> jsstring list \<Rightarrow> jsstring list" where
  "mergeSegments sep currentChunk [] =
     (if truthy (trim currentChunk) then [trim currentChunk] else [])"
| "mergeSegments sep currentChunk (article # rest) =
     (if length currentChunk + length article > chunkSize \<and> length currentChunk > minChunkSize
      then trim currentChunk # mergeSegments sep article rest
      else mergeSegments sep (currentChunk @ sep @ article) rest)"

definition createChunks :: "jsstring \<Rightarrow> jsstring list" where
  "createChunks text =
     (let articleSplits = filter (\<lambda>s. truthy (trim s)) (splitArticles [] text)
      in if length articleSplits > 1
         then mergeSegments [LF] [] articleSplits
         else mergeSegments [LF, LF] []
                (filter (\<lambda>p. truthy (trim p)) (splitParagraphs [] text)))"

text \<open>The text with its white space removed: what a chunking may not lose.\<close>

definition nonSpace :: "jsstring \<Rightarrow> jsstring" where
  "nonSpace s = filter (\<lambda>c. \<not> isSpace c) s"

text \<open>
  The tokens of a string: its maximal runs of characters that are not white space, in
  order. The first argument of \<open>tokensFrom\<close> is the run under construction.
\<close>

fun tokensFrom :: "jsstring \<Rightarrow> jsstring \<Rightarrow> jsstring list" where
  "tokensFrom cur [] = (if cur = [] then [] else [cur])"
| "tokensFrom cur (c # cs) =
     (if isSpace c then (if cur = [] then [] else [cur]) @ tokensFrom [] cs
      else tokensFrom (cur @ [c]) cs)"

definition tokens :: "jsstring \<Rightarrow> jsstring list" where
  "tokens s = tokensFrom [] s"

definition analyzeStructure :: "jsstring \<Rightarrow> Structure" where
  "analyzeStructure text =
     \<lparr>paragraphs = length (filter (\<lambda>p. truthy (trim p)) (splitParagraphs [] text)),
      articles = countMatches articleMatchLength 0 False text,
      sections = countMatches sectionMatchLength 0 False text\<rparr>"


section \<open>Numbers\<close>

text \<open>
  A JavaScript number is an IEEE-754 binary64 value. \<open>toDouble\<close> rounds a rational to
  the nearest value with a 53-bit significand, ties to even, with no bound on the
  exponent: for magnitudes from \<open>2^-1022\<close> to below \<open>2^1024\<close>, which covers every value
  computed here, this is the rounding of binary64.
\<close>

text \<open>For \<open>x > 0\<close>, the \<open>e\<close> with \<open>2^e \<le> x < 2^(e+1)\<close>.\<close>

definition floorLog2 :: "rat \<Rightarrow> int" where
  "floorLog2 x =
     (if 1 \<le> x then int (floorlog 2 (nat \<lfloor>x\<rfloor>)) - 1
      else - int (ceillog2 (nat \<lceil>1 / x\<rceil>)))"

definition roundHalfEven :: "rat \<Rightarrow> int" where
  "roundHalfEven x =
     (let f = \<lfloor>x\<rfloor>; d = x - of_int f
      in if d < 1 / 2 then f
         else if 1 / 2 < d then f + 1
         else if even f then f else f + 1)"

definition toDouble :: "rat \<Rightarrow> rat" where
  "toDouble x =
     (if x = 0 then 0
      else (let ulp = 2 powi (floorLog2 \<bar>x\<bar> - 52)
            in sgn x * of_int (roundHalfEven (\<bar>x\<bar> / ulp)) * ulp))"

text \<open>The operators \<open>/\<close> and \<open>*\<close> on numbers: the exact result, rounded.\<close>

definition numDiv :: "rat \<Rightarrow> rat \<Rightarrow> rat" where
  "numDiv x y = toDouble (x / y)"

definition numMul :: "rat \<Rightarrow> rat \<Rightarrow> rat" where
  "numMul x y = toDouble (x * y)"

text \<open>\<open>Math.round\<close>: the nearest integer, a tie going up.\<close>

definition Math_round :: "rat \<Rightarrow> int" where
  "Math_round x = \<lfloor>x + 1 / 2\<rfloor>"

text \<open>
  \<open>Math.round((processedChunks / totalChunks) * 100)\<close>. Both counts are integers far
  below \<open>2^53\<close>, so they are numbers as they stand.
\<close>

definition percentageOf :: "nat \<Rightarrow> nat \<Rightarrow> int" where
  "percentageOf processedChunks totalChunks =
     Math_round (numMul (numDiv (of_nat processedChunks) (of_nat totalChunks)) 100)"

section \<open>Results (types/index.ts)\<close>

record SentimentResult =
  overall :: jsstring
  score :: rat
  analysis :: "jsstring option"

text \<open>
  \<open>LegalAnalysisResult\<close> without \<open>processingTime\<close> and \<open>chunksProcessed\<close> (the
  \<open>Omit\<close> type returned by \<open>consolidateChunkResults\<close>), then the whole of it.
\<close>

record ConsolidatedResult =
  wordCount :: nat
  characterCount :: nat
  topWords :: countMap
  legalTerms :: countMap
  sentiment :: "SentimentResult option"
  "structure" :: Structure

record LegalAnalysisResult = ConsolidatedResult +
  processingTime :: int
  chunksProcessed :: "nat option"

record ChunkResult =
  chunkIndex :: nat
  sentiment :: "jsstring option"
  topWords :: countMap
  legalTerms :: countMap
  wordCount :: nat
  error :: "jsstring option"

text \<open>A thrown \<open>Error\<close>, with its message.\<close>

datatype error = Error jsstring

section \<open>ResultAggregator: consolidateChunkResults\<close>

text \<open>The double loop that merges the entries of every chunk into one \<open>Map\<close>.\<close>

definition mergeCounts :: "countMap list \<Rightarrow> countMap" where
  "mergeCounts entryLists =
     foldl (\<lambda>merged entries.
              foldl (\<lambda>m (k, count). mapSet m k (getOrZero m k + count)) merged entries)
       [] entryLists"

definition positivo :: jsstring where
  "positivo = ascii ''positivo''"

definition negativo :: jsstring where
  "negativo = ascii ''negativo''"

definition neutro :: jsstring where
  "neutro = ascii ''neutro''"

text \<open>
  The sentiment of the whole: the label counted most often among the chunks that have
  one, the stable sort leaving \<open>positivo\<close>, \<open>negativo\<close>, \<open>neutro\<close> in this order on a
  tie.
\<close>

definition consolidateSentiment :: "ChunkResult list \<Rightarrow> SentimentResult option" where
  "consolidateSentiment chunkResults =
     (let sentiments = concat (map (\<lambda>c. case ChunkResult.sentiment c of
                                           None \<Rightarrow> []
                                         | Some s \<Rightarrow> if truthy s then [s] else []) chunkResults)
      in if length sentiments > 0
         then (let sentimentCounts =
                     [(positivo, length (filter (\<lambda>s. s = positivo) sentiments)),
                      (negativo, length (filter (\<lambda>s. s = negativo) sentiments)),
                      (neutro, length (filter (\<lambda>s. s = neutro) sentiments))];
                   dominant = (case sortByCountDesc sentimentCounts of
                                 [] \<Rightarrow> []
                               | (label, _) # _ \<Rightarrow> label)
               in Some \<lparr>overall = dominant,
                        score = (if dominant = positivo then 1 / 2
                                 else if dominant = negativo then - 1 / 2 else 0),
                        analysis = Some (ascii ''An'' @ [225] @ ascii ''lise consolidada de m''
                                         @ [250] @ ascii ''ltiplos chunks'')\<rparr>)
         else None)"

definition consolidateChunkResults :: "ChunkResult list \<Rightarrow> jsstring \<Rightarrow> ConsolidatedResult" where
  "consolidateChunkResults chunkResults originalText =
     (let totalWords = foldl (\<lambda>sum chunk. sum + ChunkResult.wordCount chunk) 0 chunkResults;
          allTopWords = mergeCounts (map ChunkResult.topWords chunkResults);
          allLegalTerms = mergeCounts (map ChunkResult.legalTerms chunkResults)
      in \<lparr>ConsolidatedResult.wordCount = totalWords,
          characterCount = length originalText,
          ConsolidatedResult.topWords = take 5 (sortByCountDesc allTopWords),
          ConsolidatedResult.legalTerms = sortByCountDesc allLegalTerms,
          ConsolidatedResult.sentiment = consolidateSentiment chunkResults,
          structure = analyzeStructure originalText\<rparr>)"

section \<open>Per-chunk analysis and the batches of analyzeWithChunking\<close>

text \<open>
  The sentiment provider is an external service: what a call returns depends on the
  call, not on the text alone. The first argument names the call: the index of the
  chunk, or \<open>0\<close> for the one call of \<open>analyzeDirectly\<close>. A call that throws, or whose
  result cannot be read, is \<open>Inl\<close>.
\<close>

type_synonym sentimentProvider = "nat \<Rightarrow> jsstring \<Rightarrow> error + SentimentResult"

definition analyzeChunk ::
  "(jsstring \<Rightarrow> jsstring) \<Rightarrow> sentimentProvider \<Rightarrow> jsstring \<Rightarrow> nat \<Rightarrow> error + ChunkResult" where
  "analyzeChunk toLowerCase analyzeSentiment chunk index =
     (let words = extractWords toLowerCase chunk;
          wordFrequency = calculateWordFrequency words;
          topWords' = getTopWords wordFrequency 10;
          legalTerms' = extractLegalTerms words
      in if index < 3
         then (case analyzeSentiment index chunk of
                 Inl e \<Rightarrow> Inl e
               | Inr sentimentResult \<Rightarrow>
                   Inr \<lparr>chunkIndex = index, sentiment = Some (overall sentimentResult),
                        topWords = topWords', legalTerms = legalTerms',
                        wordCount = length words, error = None\<rparr>)
         else Inr \<lparr>chunkIndex = index, sentiment = None,
                   topWords = topWords', legalTerms = legalTerms',
                   wordCount = length words, error = None\<rparr>)"

record ProgressEvent =
  current :: nat
  total :: nat
  percentage :: int

text \<open>
  What the callbacks of a run share: the counter \<open>processedChunks\<close> and, in order, the
  \<open>progress\<close> events emitted so far.
\<close>

record RunState =
  processedChunks :: nat
  emitted :: "ProgressEvent list"

text \<open>
  The part of the callback of \<open>batch.map\<close> that runs when the analysis of one chunk has
  settled: the \<open>try\<close> branch counts the chunk and emits its progress, the \<open>catch\<close>
  branch returns the degraded result. JavaScript runs it to its end before any other
  callback. The listeners of \<open>progress\<close> (the worker's handler) do not throw, so
  \<open>emit\<close> only records the event. The pair is the chunk's index and the chunk.
\<close>

definition degradedResult :: "nat \<Rightarrow> ChunkResult" where
  "degradedResult chunkIndex' =
     \<lparr>chunkIndex = chunkIndex', sentiment = None, topWords = [], legalTerms = [],
      wordCount = 0, error = Some (ascii ''Falha ao analisar chunk'')\<rparr>"

definition chunkCallback ::
  "(jsstring \<Rightarrow> jsstring) \<Rightarrow> sentimentProvider \<Rightarrow> nat \<Rightarrow> nat \<times> jsstring \<Rightarrow> RunState
     \<Rightarrow> ChunkResult \<times> RunState" where
  "chunkCallback toLowerCase analyzeSentiment totalChunks ic st =
     (case analyzeChunk toLowerCase analyzeSentiment (snd ic) (fst ic) of
        Inr chunkAnalysis \<Rightarrow>
          (let p = processedChunks st + 1
           in (chunkAnalysis,
               \<lparr>processedChunks = p,
                emitted = emitted st @
                  [\<lparr>current = p, total = totalChunks,
                    percentage = percentageOf p totalChunks\<rparr>]\<rparr>))
      | Inl e \<Rightarrow> (degradedResult (fst ic), st))"

text \<open>The result that the callback returns for a chunk, whatever the state of the run.\<close>

definition callbackResult ::
  "(jsstring \<Rightarrow> jsstring) \<Rightarrow> sentimentProvider \<Rightarrow> nat \<times> jsstring \<Rightarrow> ChunkResult" where
  "callbackResult toLowerCase analyzeSentiment ic =
     (case analyzeChunk toLowerCase analyzeSentiment (snd ic) (fst ic) of
        Inr chunkAnalysis \<Rightarrow> chunkAnalysis
      | Inl e \<Rightarrow> degradedResult (fst ic))"

text \<open>
  One batch. The chunks of a batch are analysed concurrently and settle in any order:
  \<open>latency\<close> gives each chunk index the time its analysis takes, and the callbacks run
  by increasing latency (every order of the batch is the order of some \<open>latency\<close>).
  \<open>Promise.all\<close> then returns the results in the order of the batch, which is the
  order of the chunk indexes.
\<close>

definition processBatch ::
  "(jsstring \<Rightarrow> jsstring) \<Rightarrow> sentimentProvider \<Rightarrow> (nat \<Rightarrow> nat) \<Rightarrow> nat \<Rightarrow> (nat \<times> jsstring) list
     \<Rightarrow> RunState \<Rightarrow> ChunkResult list \<times> RunState" where
  "processBatch toLowerCase analyzeSentiment latency totalChunks batch st =
     (let (settled, st') =
            foldl (\<lambda>(settled, s) ic.
                     let (r, s') = chunkCallback toLowerCase analyzeSentiment totalChunks ic s
                     in (settled @ [r], s'))
              ([], st) (sort_key (\<lambda>ic. latency (fst ic)) batch)
      in (sort_key chunkIndex settled, st'))"

definition BATCH_SIZE :: nat where
  "BATCH_SIZE = 5"

text \<open>The loop over the batches; the list holds the chunks not yet started, with their indexes.\<close>

function processBatches ::
  "(jsstring \<Rightarrow> jsstring) \<Rightarrow> sentimentProvider \<Rightarrow> (nat \<Rightarrow> nat) \<Rightarrow> nat \<Rightarrow> (nat \<times> jsstring) list
     \<Rightarrow> RunState \<Rightarrow> ChunkResult list \<times> RunState" where
  "processBatches toLowerCase analyzeSentiment latency totalChunks [] st = ([], st)"
| "processBatches toLowerCase analyzeSentiment latency totalChunks (c # cs) st =
     (let (batchResults, st') =
            processBatch toLowerCase analyzeSentiment latency totalChunks
              (take BATCH_SIZE (c # cs)) st;
          (chunkResults, st'') =
            processBatches toLowerCase analyzeSentiment latency totalChunks
              (drop BATCH_SIZE (c # cs)) st'
      in (batchResults @ chunkResults, st''))"
  by pat_completeness auto
termination
  by (relation "measure (\<lambda>(_, _, _, _, chunks, _). length chunks)")
     (auto simp: BATCH_SIZE_def)

definition analyzeWithChunking ::
  "(jsstring \<Rightarrow> jsstring) \<Rightarrow> sentimentProvider \<Rightarrow> (nat \<Rightarrow> nat) \<Rightarrow> jsstring
     \<Rightarrow> LegalAnalysisResult \<times> ProgressEvent list" where
  "analyzeWithChunking toLowerCase analyzeSentiment latency text =
     (let chunks = createChunks text;
          totalChunks = length chunks;
          (chunkResults, st) =
            processBatches toLowerCase analyzeSentiment latency totalChunks
              (zip [0..<length chunks] chunks) \<lparr>processedChunks = 0, emitted = []\<rparr>;
          consolidated = consolidateChunkResults chunkResults text
      in (ConsolidatedResult.extend consolidated
            \<lparr>processingTime = 0, chunksProcessed = Some (processedChunks st)\<rparr>,
          emitted st))"

text \<open>The chunk results that \<open>analyzeWithChunking\<close> hands to the aggregator.\<close>

definition chunkResultsOf ::
  "(jsstring \<Rightarrow> jsstring) \<Rightarrow> sentimentProvider \<Rightarrow> (nat \<Rightarrow> nat) \<Rightarrow> jsstring \<Rightarrow> ChunkResult list" where
  "chunkResultsOf toLowerCase analyzeSentiment latency text =
     (let chunks = createChunks text
      in fst (processBatches toLowerCase analyzeSentiment latency (length chunks)
                (zip [0..<length chunks] chunks) \<lparr>processedChunks = 0, emitted = []\<rparr>))"

section \<open>Content fingerprint: SHA-256 of the UTF-8 bytes\<close>

text \<open>
  \<open>createHash('sha256').update(text).digest('hex')\<close> is Node's \<open>crypto\<close> library, not
  code of this repository. It is modelled from its standards: a string is hashed as
  its UTF-8 encoding (an unpaired surrogate is encoded as U+FFFD), the hash is SHA-256
  as in FIPS 180-4, and the digest is written with two lowercase hexadecimal digits
  a byte.
\<close>

type_synonym byte = "8 word"
type_synonym word32 = "32 word"

text \<open>The UTF-8 bytes of one code point.\<close>

definition utf8CodePoint :: "int \<Rightarrow> byte list" where
  "utf8CodePoint cp =
     (if cp < 128 then [of_int cp]
      else if cp < 2048 then [of_int (192 + cp div 64), of_int (128 + cp mod 64)]
      else if cp < 65536 then
        [of_int (224 + cp div 4096), of_int (128 + cp div 64 mod 64), of_int (128 + cp mod 64)]
      else
        [of_int (240 + cp div 262144), of_int (128 + cp div 4096 mod 64),
         of_int (128 + cp div 64 mod 64), of_int (128 + cp mod 64)])"

definition isHighSurrogate :: "jschar \<Rightarrow> bool" where
  "isHighSurrogate c \<longleftrightarrow> 55296 \<le> c \<and> c \<le> 56319"

definition isLowSurrogate :: "jschar \<Rightarrow> bool" where
  "isLowSurrogate c \<longleftrightarrow> 56320 \<le> c \<and> c \<le> 57343"

text \<open>
  The UTF-8 bytes of a string: a high surrogate followed by a low one is one code point
  above U+FFFF, any other surrogate is replaced by U+FFFD (65533), and every other code
  unit is its own code point.
\<close>

fun utf8 :: "jsstring \<Rightarrow> byte list" where
  "utf8 [] = []"
| "utf8 [c] =
     (if isHighSurrogate c \<or> isLowSurrogate c then utf8CodePoint 65533
      else utf8CodePoint (uint c))"
| "utf8 (c # d # cs) =
     (if isHighSurrogate c \<and> isLowSurrogate d
      then utf8CodePoint (65536 + (uint c - 55296) * 1024 + (uint d - 56320)) @ utf8 cs
      else if isHighSurrogate c \<or> isLowSurrogate c then utf8CodePoint 65533 @ utf8 (d # cs)
      else utf8CodePoint (uint c) @ utf8 (d # cs))"

definition K256 :: "word32 list" where
  "K256 =
     [1116352408, 1899447441, 3049323471, 3921009573, 961987163, 1508970993,
      2453635748, 2870763221, 3624381080, 310598401, 607225278, 1426881987,
      1925078388, 2162078206, 2614888103, 3248222580, 3835390401, 4022224774,
      264347078, 604807628, 770255983, 1249150122, 1555081692, 1996064986,
      2554220882, 2821834349, 2952996808, 3210313671, 3336571891, 3584528711,
      113926993, 338241895, 666307205, 773529912, 1294757372, 1396182291,
      1695183700, 1986661051, 2177026350, 2456956037, 2730485921, 2820302411,
      3259730800, 3345764771, 3516065817, 3600352804, 4094571909, 275423344,
      430227734, 506948616, 659060556, 883997877, 958139571, 1322822218,
      1537002063, 1747873779, 1955562222, 2024104815, 2227730452, 2361852424,
      2428436474, 2756734187, 3204031479, 3329325298]"

definition rotr :: "nat \<Rightarrow> word32 \<Rightarrow> word32" where
  "rotr n x = word_rotr n x"

definition Ch :: "word32 \<Rightarrow> word32 \<Rightarrow> word32 \<Rightarrow> word32" where
  "Ch x y z = (x AND y) XOR (NOT x AND z)"

definition Maj :: "word32 \<Rightarrow> word32 \<Rightarrow> word32 \<Rightarrow> word32" where
  "Maj x y z = (x AND y) XOR (x AND z) XOR (y AND z)"

definition bigSigma0 :: "word32 \<Rightarrow> word32" where
  "bigSigma0 x = rotr 2 x XOR rotr 13 x XOR rotr 22 x"

definition bigSigma1 :: "word32 \<Rightarrow> word32" where
  "bigSigma1 x = rotr 6 x XOR rotr 11 x XOR rotr 25 x"

definition smallSigma0 :: "word32 \<Rightarrow> word32" where
  "smallSigma0 x = rotr 7 x XOR rotr 18 x XOR drop_bit 3 x"

definition smallSigma1 :: "word32 \<Rightarrow> word32" where
  "smallSigma1 x = rotr 17 x XOR rotr 19 x XOR drop_bit 10 x"

text \<open>The eight working variables, and the hash value, of SHA-256.\<close>

type_synonym hash256 = "word32 \<times> word32 \<times> word32 \<times> word32 \<times> word32 \<times> word32 \<times> word32 \<times> word32"

definition initialHash :: hash256 where
  "initialHash =
     (1779033703, 3144134277, 1013904242, 2773480762, 1359893119, 2600822924, 528734635, 1541459225)"

fun shaRound :: "word32 \<Rightarrow> word32 \<Rightarrow> hash256 \<Rightarrow> hash256" where
  "shaRound k w (a, b, c, d, e, f, g, h) =
     (let t1 = h + bigSigma1 e + Ch e f g + k + w;
          t2 = bigSigma0 a + Maj a b c
      in (t1 + t2, a, b, c, d + t1, e, f, g))"

text \<open>
  The 64 rounds of one block. The second argument is the window of the message
  schedule: the sixteen words \<open>W t, \<dots>, W (t + 15)\<close>, \<open>t\<close> the number of the round.
\<close>

fun shaRounds :: "word32 list \<Rightarrow> word32 list \<Rightarrow> hash256 \<Rightarrow> hash256" where
  "shaRounds [] w s = s"
| "shaRounds (k # ks) w s =
     shaRounds ks
       (tl w @ [smallSigma1 (w ! 14) + w ! 9 + smallSigma0 (w ! 1) + w ! 0])
       (shaRound k (w ! 0) s)"

fun addHash :: "hash256 \<Rightarrow> hash256 \<Rightarrow> hash256" where
  "addHash (a, b, c, d, e, f, g, h) (a', b', c', d', e', f', g', h') =
     (a + a', b + b', c + c', d + d', e + e', f + f', g + g', h + h')"

text \<open>Big-endian words of a block of 64 bytes.\<close>

fun wordsOf :: "byte list \<Rightarrow> word32 list" where
  "wordsOf (b0 # b1 # b2 # b3 # bs) =
     (push_bit 24 (ucast b0) OR push_bit 16 (ucast b1) OR push_bit 8 (ucast b2) OR ucast b3)
     # wordsOf bs"
| "wordsOf _ = []"

function shaBlocks :: "byte list \<Rightarrow> hash256 \<Rightarrow> hash256" where
  "shaBlocks bs s =
     (if length bs < 64 then s
      else shaBlocks (drop 64 bs) (addHash s (shaRounds K256 (wordsOf (take 64 bs)) s)))"
  by pat_completeness auto
termination
  by (relation "measure (\<lambda>(bs, s). length bs)") auto

text \<open>
  Padding: the byte \<open>0x80\<close>, zero bytes up to 56 modulo 64, and the length of the
  message in bits as a 64-bit big-endian integer.
\<close>

definition shaPad :: "byte list \<Rightarrow> byte list" where
  "shaPad m =
     (let bits = (of_nat (8 * length m) :: 64 word)
      in m @ [128] @ replicate ((119 - length m mod 64) mod 64) 0
           @ map (\<lambda>i. ucast (drop_bit (8 * (7 - i)) bits)) [0..<8])"

definition bytesOf :: "word32 \<Rightarrow> byte list" where
  "bytesOf w = [ucast (drop_bit 24 w), ucast (drop_bit 16 w), ucast (drop_bit 8 w), ucast w]"

fun digestBytes :: "hash256 \<Rightarrow> byte list" where
  "digestBytes (a, b, c, d, e, f, g, h) =
     bytesOf a @ bytesOf b @ bytesOf c @ bytesOf d @ bytesOf e @ bytesOf f @ bytesOf g @ bytesOf h"

definition sha256 :: "byte list \<Rightarrow> byte list" where
  "sha256 m = digestBytes (shaBlocks (shaPad m) initialHash)"

definition hexDigit :: "nat \<Rightarrow> jschar" where
  "hexDigit n = (if n < 10 then of_nat (48 + n) else of_nat (87 + n))"

definition hex :: "byte list \<Rightarrow> jsstring" where
  "hex bs = concat (map (\<lambda>b. [hexDigit (unat b div 16), hexDigit (unat b mod 16)]) bs)"

definition generateKey :: "jsstring \<Rightarrow> jsstring" where
  "generateKey text = hex (sha256 (utf8 text))"

section \<open>Cache (CacheService)\<close>

record 'v CacheEntry =
  data :: 'v
  expiresAt :: int

record 'v CacheService =
  cache :: "jsstring \<rightharpoonup> 'v CacheEntry"
  hits :: nat
  misses :: nat

text \<open>
  Times are milliseconds, as \<open>Date.now()\<close> gives them; each operation that reads the
  clock takes the reading as its argument \<open>now\<close>. \<open>config.cache.ttl\<close> comes from the
  environment (7200000 when unset) and is the parameter \<open>configTtl\<close>.
\<close>

definition get :: "jsstring \<Rightarrow> int \<Rightarrow> 'v CacheService \<Rightarrow> 'v option \<times> 'v CacheService" where
  "get key now cs =
     (case cache cs key of
        None \<Rightarrow> (None, cs\<lparr>misses := misses cs + 1\<rparr>)
      | Some entry \<Rightarrow>
          if now > expiresAt entry
          then (None, cs\<lparr>cache := (cache cs)(key := None), misses := misses cs + 1\<rparr>)
          else (Some (data entry), cs\<lparr>hits := hits cs + 1\<rparr>))"

text \<open>\<open>ttl || config.cache.ttl\<close>: an absent \<open>ttl\<close> and the \<open>ttl\<close> 0 both give the default.\<close>

definition ttlOrDefault :: "int option \<Rightarrow> int \<Rightarrow> int" where
  "ttlOrDefault ttl configTtl =
     (case ttl of None \<Rightarrow> configTtl | Some t \<Rightarrow> if t = 0 then configTtl else t)"

definition set_cache ::
  "int \<Rightarrow> jsstring \<Rightarrow> 'v \<Rightarrow> int option \<Rightarrow> int \<Rightarrow> 'v CacheService \<Rightarrow> 'v CacheService" where
  "set_cache configTtl key value ttl now cs =
     (let expiresAt' = now + ttlOrDefault ttl configTtl
      in cs\<lparr>cache := (cache cs)(key \<mapsto> \<lparr>data = value, expiresAt = expiresAt'\<rparr>)\<rparr>)"

definition delete :: "jsstring \<Rightarrow> 'v CacheService \<Rightarrow> bool \<times> 'v CacheService" where
  "delete key cs = (cache cs key \<noteq> None, cs\<lparr>cache := (cache cs)(key := None)\<rparr>)"

definition clear :: "'v CacheService \<Rightarrow> 'v CacheService" where
  "clear cs = cs\<lparr>cache := Map.empty\<rparr>"

text \<open>The periodic sweep.\<close>

definition cleanup :: "int \<Rightarrow> 'v CacheService \<Rightarrow> 'v CacheService" where
  "cleanup now cs =
     cs\<lparr>cache := (\<lambda>key. case cache cs key of
                         None \<Rightarrow> None
                       | Some entry \<Rightarrow> if now > expiresAt entry then None else Some entry)\<rparr>"

section \<open>analyzeLegalText\<close>

definition maxTextSize :: nat where
  "maxTextSize = 2000000"

text \<open>
  \<open>validateInput\<close> on a string: the empty string is falsy (\<open>Texto inv..lido\<close>, with
  a-acute 225), a blank one is refused next, then one over \<open>maxTextSize\<close>
  (2000000 / 1024 / 1024 prints as 1.9073486328125).
\<close>

definition validateInput :: "jsstring \<Rightarrow> error + unit" where
  "validateInput text =
     (if \<not> truthy text then Inl (Error (ascii ''Texto inv'' @ [225] @ ascii ''lido''))
      else if length (trim text) = 0
        then Inl (Error (ascii ''Texto n'' @ [227] @ ascii ''o pode estar vazio''))
      else if length text > maxTextSize
        then Inl (Error (ascii ''Texto muito grande (m'' @ [225]
                         @ ascii ''ximo 1.9073486328125MB)''))
      else Inr ())"

definition performBasicAnalysis :: "(jsstring \<Rightarrow> jsstring) \<Rightarrow> jsstring \<Rightarrow> ConsolidatedResult" where
  "performBasicAnalysis toLowerCase text =
     (let words = extractWords toLowerCase text;
          wordFrequency = calculateWordFrequency words
      in \<lparr>ConsolidatedResult.wordCount = length words,
          characterCount = length text,
          ConsolidatedResult.topWords = getTopWords wordFrequency 5,
          ConsolidatedResult.legalTerms = extractLegalTerms words,
          ConsolidatedResult.sentiment = None,
          structure = analyzeStructure text\<rparr>)"

definition analyzeDirectly ::
  "(jsstring \<Rightarrow> jsstring) \<Rightarrow> sentimentProvider \<Rightarrow> jsstring \<Rightarrow> error + LegalAnalysisResult" where
  "analyzeDirectly toLowerCase analyzeSentiment text =
     (let basicAnalysis = performBasicAnalysis toLowerCase text
      in case analyzeSentiment 0 text of
           Inl e \<Rightarrow> Inl e
         | Inr sentiment' \<Rightarrow>
             Inr (ConsolidatedResult.extend
                    (basicAnalysis\<lparr>ConsolidatedResult.sentiment := Some sentiment'\<rparr>)
                    \<lparr>processingTime = 0, chunksProcessed = Some 1\<rparr>))"

text \<open>
  The four readings of the clock in \<open>analyzeLegalText\<close>: at the start, in the cache
  lookup, at the end, and in the cache store.
\<close>

record Clock =
  startTime :: int
  lookupTime :: int
  endTime :: int
  storeTime :: int

text \<open>
  \<open>analyzeLegalText\<close> returns the result or the error thrown, the cache as it is left,
  and the progress events emitted.
\<close>

definition analyzeLegalText ::
  "(jsstring \<Rightarrow> jsstring) \<Rightarrow> sentimentProvider \<Rightarrow> (nat \<Rightarrow> nat) \<Rightarrow> int \<Rightarrow> Clock
     \<Rightarrow> LegalAnalysisResult CacheService \<Rightarrow> jsstring
     \<Rightarrow> (error + LegalAnalysisResult) \<times> LegalAnalysisResult CacheService \<times> ProgressEvent list" where
  "analyzeLegalText toLowerCase analyzeSentiment latency configTtl clock cs text =
     (let cacheKey = generateKey text;
          (cached, cs1) = get cacheKey (lookupTime clock) cs
      in case cached of
           Some r \<Rightarrow> (Inr r, cs1, [])
         | None \<Rightarrow>
             (case validateInput text of
                Inl e \<Rightarrow> (Inl e, cs1, [])
              | Inr _ \<Rightarrow>
                  (let needsChunking = length text > chunkSize * 2;
                       (outcome, events) =
                         (if needsChunking
                          then (let (r, evs) = analyzeWithChunking toLowerCase analyzeSentiment
                                                 latency text
                                in (Inr r, evs))
                          else (analyzeDirectly toLowerCase analyzeSentiment text, []))
                   in case outcome of
                        Inl e \<Rightarrow> (Inl e, cs1, events)
                      | Inr result \<Rightarrow>
                          (let result' = result\<lparr>processingTime := endTime clock - startTime clock\<rparr>
                           in (Inr result',
                               set_cache configTtl cacheKey result' None (storeTime clock) cs1,
                               events)))))"

section \<open>JobQueue: the in-memory backend of QueueService\<close>

text \<open>The field \<open>text\<close> of a job is \<open>jobText\<close> here.\<close>

record AnalysisJob =
  analysisId :: jsstring
  jobText :: jsstring
  priority :: nat
  attempts :: nat
  sourceType :: "jsstring option"
  originalFilename :: "jsstring option"
  fileSize :: "nat option"

text \<open>
  A JavaScript \<open>Set\<close> of strings, as the list of its members in insertion order.
\<close>

type_synonym stringSet = "jsstring list"

definition setAdd :: "jsstring \<Rightarrow> stringSet \<Rightarrow> stringSet" where
  "setAdd x s = (if x \<in> set s then s else s @ [x])"

definition setDelete :: "jsstring \<Rightarrow> stringSet \<Rightarrow> stringSet" where
  "setDelete x s = filter (\<lambda>y. y \<noteq> x) s"

text \<open>
  The events of the queue. \<open>job:added\<close> carries the job object, of which its listener
  reads nothing: the model keeps the job's id. \<open>job:failed\<close> carries the job as it is
  when it is dropped, and the error.
\<close>

datatype QueueEvent = JobAdded jsstring | JobFailed AnalysisJob error

text \<open>
  The state of the service when Redis is off (\<open>useRedis\<close> false): the queue, the set of
  claimed ids, the timers set by \<open>setTimeout\<close> and not yet fired (the time each is due,
  and the \<open>analysisId\<close> its callback holds), and the events emitted.
\<close>

record QueueService =
  memoryQueue :: "AnalysisJob list"
  processing :: stringSet
  timers :: "(int \<times> jsstring) list"
  events :: "QueueEvent list"

definition calculatePriority :: "nat \<Rightarrow> nat" where
  "calculatePriority textLength =
     (if textLength > 100000 then 3
      else if textLength > 50000 then 2
      else if textLength > 10000 then 1
      else 0)"

text \<open>\<open>addJob\<close>, memory branch. The sort is stable, by descending priority.\<close>

definition addJob :: "AnalysisJob \<Rightarrow> QueueService \<Rightarrow> QueueService" where
  "addJob job q =
     (let priority' = calculatePriority (length (jobText job));
          job' = job\<lparr>priority := priority'\<rparr>
      in q\<lparr>memoryQueue := sort_key (\<lambda>j. - int (priority j)) (memoryQueue q @ [job']),
           events := events q @ [JobAdded (analysisId job')]\<rparr>)"

definition getNextJob :: "QueueService \<Rightarrow> AnalysisJob option \<times> QueueService" where
  "getNextJob q =
     (case find (\<lambda>j. analysisId j \<notin> set (processing q)) (memoryQueue q) of
        None \<Rightarrow> (None, q)
      | Some job \<Rightarrow> (Some job, q\<lparr>processing := setAdd (analysisId job) (processing q)\<rparr>))"

definition completeJob :: "jsstring \<Rightarrow> QueueService \<Rightarrow> QueueService" where
  "completeJob jobId q =
     q\<lparr>processing := setDelete jobId (processing q),
       memoryQueue := filter (\<lambda>j. analysisId j \<noteq> jobId) (memoryQueue q)\<rparr>"

text \<open>\<open>job.attempts++\<close> on the job that \<open>find\<close> returns: the first with this id.\<close>

fun bumpAttempts :: "jsstring \<Rightarrow> AnalysisJob list \<Rightarrow> AnalysisJob list" where
  "bumpAttempts jobId [] = []"
| "bumpAttempts jobId (j # js) =
     (if analysisId j = jobId then j\<lparr>attempts := attempts j + 1\<rparr> # js
      else j # bumpAttempts jobId js)"

text \<open>
  \<open>failJob\<close> at the time \<open>now\<close>. \<open>maxRetries\<close> is \<open>config.queue.maxRetries\<close>, from the
  environment (3 when unset). The timer is due \<open>2 ^ attempts * 1000\<close> ms from now.
\<close>

definition failJob :: "nat \<Rightarrow> int \<Rightarrow> jsstring \<Rightarrow> error \<Rightarrow> QueueService \<Rightarrow> QueueService" where
  "failJob maxRetries now jobId err q =
     (let q1 = q\<lparr>processing := setDelete jobId (processing q)\<rparr>
      in case find (\<lambda>j. analysisId j = jobId) (memoryQueue q1) of
           None \<Rightarrow> q1
         | Some job \<Rightarrow>
             (let job' = job\<lparr>attempts := attempts job + 1\<rparr>
              in if attempts job' \<ge> maxRetries
                 then q1\<lparr>memoryQueue := filter (\<lambda>j. analysisId j \<noteq> jobId) (memoryQueue q1),
                         events := events q1 @ [JobFailed job' err]\<rparr>
                 else q1\<lparr>memoryQueue := bumpAttempts jobId (memoryQueue q1),
                         timers := timers q1 @ [(now + 2 ^ attempts job' * 1000, jobId)]\<rparr>))"

text \<open>The callback of the timer, when it fires.\<close>

definition retryCallback :: "int \<times> jsstring \<Rightarrow> QueueService \<Rightarrow> QueueService" where
  "retryCallback timer q =
     q\<lparr>processing := setDelete (snd timer) (processing q),
       timers := remove1 timer (timers q),
       events := events q @ [JobAdded (snd timer)]\<rparr>"

section \<open>Worker (AnalysisWorker) on the in-memory queue\<close>

text \<open>
  \<open>activeJobs\<close> is the worker's own set. \<open>running\<close> is not a variable of the source: it
  lists, by job id, the calls of \<open>processJob\<close> that have started and not yet settled,
  one entry a call, which are the worker slots in use.
\<close>

record Worker =
  activeJobs :: stringSet
  running :: "jsstring list"

type_synonym system = "QueueService \<times> Worker"

text \<open>\<open>processNextJob\<close>, up to the call of \<open>processJob\<close>.\<close>

definition processNextJob :: "system \<Rightarrow> system" where
  "processNextJob s =
     (case getNextJob (fst s) of
        (None, q) \<Rightarrow> (q, snd s)
      | (Some job, q) \<Rightarrow>
          (q, \<lparr>activeJobs = setAdd (analysisId job) (activeJobs (snd s)),
               running = running (snd s) @ [analysisId job]\<rparr>))"

text \<open>
  The guard of the polling loop \<open>processJobs\<close> and of the \<open>job:added\<close> listener;
  \<open>concurrency\<close> is \<open>config.queue.concurrency\<close> (2 when unset).
\<close>

definition tryProcessNext :: "nat \<Rightarrow> system \<Rightarrow> system" where
  "tryProcessNext concurrency s =
     (if length (activeJobs (snd s)) < concurrency then processNextJob s else s)"

text \<open>
  \<open>processNextJob\<close> after \<open>processJob\<close> has returned: the job leaves \<open>activeJobs\<close> and
  the queue.
\<close>

definition jobSucceeded :: "jsstring \<Rightarrow> system \<Rightarrow> system" where
  "jobSucceeded jobId s =
     (completeJob jobId (fst s),
      \<lparr>activeJobs = setDelete jobId (activeJobs (snd s)), running = remove1 jobId (running (snd s))\<rparr>)"

text \<open>
  \<open>processJob\<close> has thrown: its \<open>catch\<close> calls \<open>failJob\<close> and throws again, and the
  \<open>catch\<close> of \<open>processNextJob\<close> only logs, so the id stays in \<open>activeJobs\<close>.
\<close>

definition jobFailed :: "nat \<Rightarrow> int \<Rightarrow> jsstring \<Rightarrow> error \<Rightarrow> system \<Rightarrow> system" where
  "jobFailed maxRetries now jobId err s =
     (failJob maxRetries now jobId err (fst s), (snd s)\<lparr>running := remove1 jobId (running (snd s))\<rparr>)"

text \<open>
  What can happen to the system, each at a time: a job is submitted, the polling loop
  wakes, a running job ends well or fails, a timer fires. Submitting a job and firing a
  timer both emit \<open>job:added\<close>, whose listener runs at once.
\<close>

datatype Action =
    Submit AnalysisJob
  | Poll
  | Succeed jsstring
  | Fail jsstring error
  | Fire "int \<times> jsstring"

text \<open>
  One step at the time \<open>now\<close>, or \<open>None\<close> when the step cannot happen: only a running
  job ends, and only a timer that is set and due fires.
\<close>

definition step :: "nat \<Rightarrow> nat \<Rightarrow> int \<Rightarrow> Action \<Rightarrow> system \<Rightarrow> system option" where
  "step maxRetries concurrency now a s =
     (case a of
        Submit job \<Rightarrow> Some (tryProcessNext concurrency (addJob job (fst s), snd s))
      | Poll \<Rightarrow> Some (tryProcessNext concurrency s)
      | Succeed jobId \<Rightarrow>
          if jobId \<in> set (running (snd s)) then Some (jobSucceeded jobId s) else None
      | Fail jobId err \<Rightarrow>
          if jobId \<in> set (running (snd s)) then Some (jobFailed maxRetries now jobId err s) else None
      | Fire timer \<Rightarrow>
          if timer \<in> set (timers (fst s)) \<and> fst timer \<le> now
          then Some (tryProcessNext concurrency (retryCallback timer (fst s), snd s))
          else None)"

text \<open>A run: timed steps, the times never going back, from a state at a time.\<close>

fun run :: "nat \<Rightarrow> nat \<Rightarrow> int \<Rightarrow> (int \<times> Action) list \<Rightarrow> system \<Rightarrow> system option" where
  "run maxRetries concurrency t [] s = Some s"
| "run maxRetries concurrency t ((now, a) # rest) s =
     (if now < t then None
      else case step maxRetries concurrency now a s of
             None \<Rightarrow> None
           | Some s' \<Rightarrow> run maxRetries concurrency now rest s')"

definition initialSystem :: system where
  "initialSystem =
     (\<lparr>memoryQueue = [], processing = [], timers = [], events = []\<rparr>,
      \<lparr>activeJobs = [], running = []\<rparr>)"

text \<open>A job as the controller queues it: 50000 characters, no attempt made.\<close>

definition job1 :: AnalysisJob where
  "job1 = \<lparr>analysisId = ascii ''job-1'', jobText = replicate 50000 97, priority = 1,
           attempts = 0, sourceType = None, originalFilename = None, fileSize = None\<rparr>"

text \<open>The progress events of a run in which \<open>p\<close> chunks were counted.\<close>

definition progressUpTo :: "nat \<Rightarrow> nat \<Rightarrow> ProgressEvent list" where
  "progressUpTo totalChunks p =
     map (\<lambda>c. \<lparr>current = c, total = totalChunks, percentage = percentageOf c totalChunks\<rparr>)
       [1..<Suc p]"

text \<open>The entries of the legal vocabulary that hold a space.\<close>

definition multiWordTerms :: "jsstring list" where
  "multiWordTerms = filter (\<lambda>t. SP \<in> set t) config_legalTerms"

text \<open>A short text, and a provider that answers every call.\<close>

definition sampleText :: jsstring where
  "sampleText = ascii ''contrato coisa julgada''"

definition okProvider :: sentimentProvider where
  "okProvider = (\<lambda>i t. Inr \<lparr>overall = neutro, score = 0, analysis = None\<rparr>)"

text \<open>
  The expiry as the specification words it: now plus the \<open>ttl\<close> given, the configured
  default standing in for a \<open>ttl\<close> that is not given.
\<close>

definition specExpiry :: "int option \<Rightarrow> int \<Rightarrow> int \<Rightarrow> int" where
  "specExpiry ttl configTtl now = now + (case ttl of None \<Rightarrow> configTtl | Some t \<Rightarrow> t)"

definition emptyCache :: "nat CacheService" where
  "emptyCache = \<lparr>cache = Map.empty, hits = 0, misses = 0\<rparr>"

text \<open>
  A text of 6004 code units, so routed through chunking: 3001 times \<open>a\<close>, an empty
  line, 3001 times \<open>b\<close>.
\<close>

definition twoParagraphs :: jsstring where
  "twoParagraphs = replicate 3001 97 @ [LF, LF] @ replicate 3001 98"

text \<open>A text with two article headings, each on a line of its own.\<close>

definition twoArticles :: jsstring where
  "twoArticles = ascii ''x'' @ [LF] @ ascii ''Art. 1 a'' @ [LF] @ ascii ''Art. 2 b''"

section \<open>Chunking: what createChunks keeps\<close>

lemma nonSpace_Nil [simp]: "nonSpace [] = []"
  by (simp add: nonSpace_def)

lemma trim_Nil [simp]: "trim [] = []"
  by (simp add: trim_def)

lemma isSpace_LF [simp]: "isSpace LF"
  by (simp add: isSpace_def LF_def)

lemma all_space_dropWhile: "nonSpace s = [] \<Longrightarrow> dropWhile isSpace s = []"
  unfolding nonSpace_def filter_empty_conv dropWhile_eq_Nil_conv by simp

lemma nonSpace_Nil_trim: "nonSpace s = [] \<Longrightarrow> trim s = []"
  by (simp add: trim_def all_space_dropWhile)

lemma nonSpace_append: "nonSpace (a @ b) = nonSpace a @ nonSpace b"
  by (simp add: nonSpace_def)

lemma nonSpace_dropWhile: "nonSpace (dropWhile isSpace s) = nonSpace s"
  by (induction s) (auto simp: nonSpace_def)

lemma nonSpace_rev: "nonSpace (rev s) = rev (nonSpace s)"
  by (simp add: nonSpace_def rev_filter)

lemma nonSpace_trim: "nonSpace (trim s) = nonSpace s"
  by (simp add: trim_def nonSpace_rev nonSpace_dropWhile)

lemma blank_nonSpace: "\<not> truthy (trim s) \<Longrightarrow> nonSpace s = []"
  using nonSpace_trim [of s] by (simp add: truthy_def nonSpace_def)

lemma nonSpace_concat_filter:
  "nonSpace (concat (filter (\<lambda>s. truthy (trim s)) ps)) = nonSpace (concat ps)"
  by (induction ps) (auto simp: nonSpace_append blank_nonSpace)

lemma concat_splitArticles: "concat (splitArticles cur s) = cur @ s"
  by (induction s arbitrary: cur) auto

lemma nonSpace_LF: "nonSpace (replicate n LF) = []"
  by (simp add: nonSpace_def isSpace_def LF_def)

lemma nonSpace_dropWhile_LF: "nonSpace (dropWhile (\<lambda>d. d = LF) s) = nonSpace s"
  by (induction s) (auto simp: nonSpace_def isSpace_def LF_def)

lemma nonSpace_splitParagraphs:
  "nonSpace (concat (splitParagraphs cur s)) = nonSpace (cur @ s)"
proof (induction cur s rule: splitParagraphs.induct)
  case (1 cur)
  show ?case by simp
next
  case (2 cur c cs)
  show ?case
  proof (cases "c = LF \<and> (case cs of [] \<Rightarrow> False | d # _ \<Rightarrow> d = LF)")
    case True
    have "nonSpace [c] = []" using True by (simp add: nonSpace_def)
    with True 2(1) show ?thesis
      by (simp add: nonSpace_append nonSpace_dropWhile_LF del: splitParagraphs.simps)
         (simp add: nonSpace_def)
  next
    case False
    then have "splitParagraphs cur (c # cs) = splitParagraphs (cur @ [c]) cs"
      by auto
    with 2(2) [OF False] show ?thesis by simp
  qed
qed

lemma nonSpace_mergeSegments:
  "nonSpace sep = [] \<Longrightarrow>
   nonSpace (concat (mergeSegments sep cur segs)) = nonSpace (cur @ concat segs)"
proof (induction segs arbitrary: cur)
  case Nil
  then show ?case by (auto simp: nonSpace_trim blank_nonSpace)
next
  case (Cons a segs)
  then show ?case by (simp add: nonSpace_append nonSpace_trim)
qed

lemma mergeSegments_nonblank:
  "\<lbrakk>cur = [] \<or> nonSpace cur \<noteq> []; \<forall>s \<in> set segs. nonSpace s \<noteq> [];
    c \<in> set (mergeSegments sep cur segs)\<rbrakk> \<Longrightarrow> nonSpace c \<noteq> []"
proof (induction segs arbitrary: cur)
  case Nil
  then show ?case by (auto simp: nonSpace_trim truthy_def split: if_splits)
next
  case (Cons a segs)
  show ?case
  proof (cases "length cur + length a > chunkSize \<and> length cur > minChunkSize")
    case True
    then have "cur \<noteq> []" by auto
    with Cons.prems(1) have "nonSpace (trim cur) \<noteq> []" by (simp add: nonSpace_trim)
    moreover have "c = trim cur \<or> c \<in> set (mergeSegments sep a segs)"
      using Cons.prems(3) True by simp
    moreover have "c \<in> set (mergeSegments sep a segs) \<Longrightarrow> nonSpace c \<noteq> []"
      using Cons.IH [of a] Cons.prems(2) by simp
    ultimately show ?thesis by blast
  next
    case False
    then have "c \<in> set (mergeSegments sep (cur @ sep @ a) segs)"
      using Cons.prems(3) by auto
    moreover have "nonSpace (cur @ sep @ a) \<noteq> []"
      using Cons.prems(2) by (simp add: nonSpace_append)
    ultimately show ?thesis using Cons.IH [of "cur @ sep @ a"] Cons.prems(2) by simp
  qed
qed

lemma nonblank_filter: "\<forall>s \<in> set (filter (\<lambda>s. truthy (trim s)) ps). nonSpace s \<noteq> []"
proof
  fix s assume "s \<in> set (filter (\<lambda>s. truthy (trim s)) ps)"
  then have "trim s \<noteq> []" by (simp add: truthy_def)
  then show "nonSpace s \<noteq> []" using nonSpace_Nil_trim by blast
qed


lemma createChunks_nonSpace: "nonSpace (concat (createChunks text)) = nonSpace text"
proof -
  define arts where "arts = filter (\<lambda>s. truthy (trim s)) (splitArticles [] text)"
  define pars where "pars = filter (\<lambda>p. truthy (trim p)) (splitParagraphs [] text)"
  have sep1: "nonSpace [LF] = []" and sep2: "nonSpace [LF, LF] = []"
    by (simp_all add: nonSpace_def)
  have a: "nonSpace (concat arts) = nonSpace text"
    unfolding arts_def by (simp add: nonSpace_concat_filter concat_splitArticles)
  have p: "nonSpace (concat pars) = nonSpace text"
    unfolding pars_def by (simp add: nonSpace_concat_filter nonSpace_splitParagraphs)
  have "createChunks text =
          (if length arts > 1 then mergeSegments [LF] [] arts else mergeSegments [LF, LF] [] pars)"
    by (simp add: createChunks_def Let_def arts_def pars_def)
  then show ?thesis
    by (simp add: nonSpace_mergeSegments [OF sep1] nonSpace_mergeSegments [OF sep2] a p)
qed

lemma createChunks_nonblank:
  assumes "c \<in> set (createChunks text)"
  shows "nonSpace c \<noteq> []"
proof -
  define arts where "arts = filter (\<lambda>s. truthy (trim s)) (splitArticles [] text)"
  define pars where "pars = filter (\<lambda>p. truthy (trim p)) (splitParagraphs [] text)"
  have a: "\<forall>s \<in> set arts. nonSpace s \<noteq> []"
    unfolding arts_def by (rule nonblank_filter)
  have p: "\<forall>s \<in> set pars. nonSpace s \<noteq> []"
    unfolding pars_def by (rule nonblank_filter)
  have "createChunks text =
          (if length arts > 1 then mergeSegments [LF] [] arts else mergeSegments [LF, LF] [] pars)"
    by (simp add: createChunks_def Let_def arts_def pars_def)
  with assms have "c \<in> set (mergeSegments [LF] [] arts) \<or> c \<in> set (mergeSegments [LF, LF] [] pars)"
    by (simp split: if_splits)
  then show ?thesis
    using mergeSegments_nonblank [OF _ a, of "[]" c "[LF]"]
          mergeSegments_nonblank [OF _ p, of "[]" c "[LF, LF]"] by blast
qed

lemma articleLookahead_needs_r: "articleLookahead s \<Longrightarrow> (114::jschar) \<in> set s"
proof -
  assume a: "articleLookahead s"
  then obtain c r where s: "s = c # r" by (cases s) (auto simp: articleLookahead_def)
  from a s obtain a' r2 where "dropWhile isSpace r = a' # 114 # r2"
    by (auto simp: articleLookahead_def split: list.splits)
  then have "114 \<in> set (dropWhile isSpace r)" by simp
  then have "114 \<in> set r" by (rule set_dropWhileD)
  with s show ?thesis by simp
qed

lemma splitArticles_no_r: "(114::jschar) \<notin> set s \<Longrightarrow> splitArticles cur s = [cur @ s]"
proof (induction s arbitrary: cur)
  case Nil
  show ?case by simp
next
  case (Cons c cs)
  have "\<not> articleLookahead (c # cs)"
    using Cons.prems articleLookahead_needs_r by blast
  with Cons show ?case by simp
qed

lemma splitParagraphs_no_LF:
  "LF \<notin> set xs \<Longrightarrow> splitParagraphs cur (xs @ rest) = splitParagraphs (cur @ xs) rest"
  by (induction xs arbitrary: cur) auto

lemma trim_replicate: "\<not> isSpace c \<Longrightarrow> trim (replicate n c) = replicate n c"
  by (simp add: trim_def dropWhile_replicate)

lemma trim_LF_replicate: "\<not> isSpace c \<Longrightarrow> trim (LF # LF # replicate n c) = replicate n c"
  by (simp add: trim_def dropWhile_replicate dropWhile_append3)

lemma not_isSpace_ab: "\<not> isSpace 97" "\<not> isSpace 98"
  by (simp_all add: isSpace_def)

lemma splitArticles_twoParagraphs: "splitArticles [] twoParagraphs = [twoParagraphs]"
  by (rule splitArticles_no_r [of twoParagraphs "[]", simplified])
     (simp add: twoParagraphs_def LF_def)

lemma splitParagraphs_twoParagraphs:
  "splitParagraphs [] twoParagraphs = [replicate 3001 97, replicate 3001 98]"
proof -
  have "splitParagraphs [] twoParagraphs
        = splitParagraphs (replicate 3001 97) (LF # LF # replicate 3001 98)"
    unfolding twoParagraphs_def
    using splitParagraphs_no_LF [of "replicate 3001 97" "[]" "[LF, LF] @ replicate 3001 98"]
    by (simp add: LF_def)
  also have "\<dots> = replicate 3001 97 # splitParagraphs [] (replicate 3001 98 @ [])"
    by (simp add: dropWhile_replicate LF_def)
  also have "splitParagraphs [] (replicate 3001 98 @ []) = splitParagraphs ([] @ replicate 3001 98) []"
    by (rule splitParagraphs_no_LF) (simp add: LF_def)
  finally show ?thesis by simp
qed

lemma createChunks_twoParagraphs:
  "createChunks twoParagraphs = [replicate 3001 97, replicate 3001 98]"
  by (simp add: createChunks_def splitArticles_twoParagraphs splitParagraphs_twoParagraphs
      truthy_def trim_replicate trim_LF_replicate not_isSpace_ab chunkSize_def minChunkSize_def)

subsection \<open>Tokens\<close>

text \<open>
  The words that \<open>extractWords\<close> splits at white space are the tokens: the pieces of
  \<open>split(/\s+/)\<close> that are not empty.
\<close>

lemma tokensFrom_dropWhile:
  "(\<And>x. P x \<Longrightarrow> isSpace x) \<Longrightarrow> tokensFrom [] (dropWhile P s) = tokensFrom [] s"
  by (induction s) auto

lemma tokens_splitWhitespace:
  "filter truthy (splitWhitespace cur s) = tokensFrom cur s"
proof (induction cur s rule: splitWhitespace.induct)
  case (1 cur)
  show ?case by (simp add: truthy_def)
next
  case (2 cur c cs)
  show ?case
  proof (cases "isSpace c")
    case True
    have "tokensFrom [] (dropWhile isSpace cs) = tokensFrom [] cs"
      by (rule tokensFrom_dropWhile)
    with True "2.IH"(1) [OF True] show ?thesis by (simp add: truthy_def)
  next
    case False
    with "2.IH"(2) [OF False] show ?thesis by simp
  qed
qed

lemma tokens_eq: "tokens s = tokensFrom [] s"
  by (simp add: tokens_def)

lemma tokensFrom_space:
  "isSpace c \<Longrightarrow> tokensFrom cur (a @ c # b) = tokensFrom cur a @ tokensFrom [] b"
  by (induction a arbitrary: cur) auto

lemma tokensFrom_spaces:
  "\<forall>c \<in> set ws. isSpace c \<Longrightarrow> tokensFrom [] (ws @ b) = tokensFrom [] b"
  by (induction ws) auto

lemma tokensFrom_all_space:
  "\<forall>c \<in> set ws. isSpace c \<Longrightarrow> tokensFrom [] ws = []"
  by (induction ws) auto

lemma tokensFrom_trailing:
  assumes "\<forall>c \<in> set ws. isSpace c"
  shows "tokensFrom cur (a @ ws) = tokensFrom cur a"
proof (cases ws)
  case Nil
  then show ?thesis by simp
next
  case (Cons w ws')
  then have w: "isSpace w" and ws': "\<forall>c \<in> set ws'. isSpace c"
    using assms by simp_all
  have "tokensFrom cur (a @ w # ws') = tokensFrom cur a @ tokensFrom [] ws'"
    using w by (rule tokensFrom_space)
  also have "tokensFrom [] ws' = []"
    using ws' by (rule tokensFrom_all_space)
  finally show ?thesis using Cons by simp
qed

lemma tokens_sep:
  assumes "sep \<noteq> []" "\<forall>c \<in> set sep. isSpace c"
  shows "tokens (a @ sep @ b) = tokens a @ tokens b"
proof -
  obtain c ws where sep: "sep = c # ws" using assms(1) by (cases sep) auto
  have "isSpace c" using assms(2) sep by simp
  then have "tokensFrom [] (a @ c # (ws @ b)) = tokensFrom [] a @ tokensFrom [] (ws @ b)"
    by (rule tokensFrom_space)
  moreover have "tokensFrom [] (ws @ b) = tokensFrom [] b"
  proof (rule tokensFrom_spaces)
    show "\<forall>c \<in> set ws. isSpace c" using assms(2) sep by simp
  qed
  ultimately show ?thesis by (simp add: tokens_eq sep)
qed

lemma takeWhile_all: "\<forall>c \<in> set (takeWhile P xs). P c"
  by (induction xs) auto

lemma trim_decompose:
  "\<exists>pre post. s = pre @ trim s @ post \<and> (\<forall>c \<in> set pre. isSpace c) \<and> (\<forall>c \<in> set post. isSpace c)"
proof -
  define u where "u = dropWhile isSpace s"
  define post where "post = rev (takeWhile isSpace (rev u))"
  have t: "trim s = rev (dropWhile isSpace (rev u))"
    by (simp add: trim_def u_def)
  have "trim s @ post = rev (takeWhile isSpace (rev u) @ dropWhile isSpace (rev u))"
    unfolding t post_def by (rule rev_append [symmetric])
  also have "\<dots> = rev (rev u)" by (simp only: takeWhile_dropWhile_id)
  also have "\<dots> = u" by (rule rev_rev_ident)
  finally have 2: "trim s @ post = u" .
  have "takeWhile isSpace s @ u = s" unfolding u_def by (rule takeWhile_dropWhile_id)
  then have 3: "s = takeWhile isSpace s @ trim s @ post"
    by (simp only: 2)
  have 4: "\<forall>c \<in> set (takeWhile isSpace s). isSpace c"
    by (rule takeWhile_all)
  have "\<forall>c \<in> set (takeWhile isSpace (rev u)). isSpace c"
    by (rule takeWhile_all)
  then have 5: "\<forall>c \<in> set post. isSpace c"
    by (simp add: post_def)
  show ?thesis
    by (rule exI [of _ "takeWhile isSpace s"], rule exI [of _ post]) (use 3 4 5 in blast)
qed

lemma tokens_trim: "tokens (trim s) = tokens s"
proof -
  obtain pre post where s: "s = pre @ trim s @ post"
    and pre: "\<forall>c \<in> set pre. isSpace c" and post: "\<forall>c \<in> set post. isSpace c"
    using trim_decompose by blast
  have "tokensFrom [] (pre @ (trim s @ post)) = tokensFrom [] (trim s @ post)"
    using pre by (rule tokensFrom_spaces)
  also have "\<dots> = tokensFrom [] (trim s)"
    using post by (rule tokensFrom_trailing)
  finally show ?thesis using s by (simp add: tokens_eq)
qed

lemma tokens_blank: "\<not> truthy (trim s) \<Longrightarrow> tokens s = []"
  using tokens_trim [of s] by (simp add: truthy_def tokens_eq)

lemma tokens_concat_filter:
  "concat (map tokens (filter (\<lambda>s. truthy (trim s)) ps)) = concat (map tokens ps)"
  by (induction ps) (auto simp: tokens_blank)

lemma articleLookahead_LF: "articleLookahead (c # cs) \<Longrightarrow> isSpace c"
  by (auto simp: articleLookahead_def)

lemma tokens_splitArticles:
  "concat (map tokens (splitArticles cur s)) = tokens (cur @ s)"
proof (induction s arbitrary: cur)
  case Nil
  show ?case by simp
next
  case (Cons c cs)
  show ?case
  proof (cases "cur \<noteq> [] \<and> articleLookahead (c # cs)")
    case True
    then have sp: "isSpace c" using articleLookahead_LF by blast
    have "concat (map tokens (splitArticles cur (c # cs)))
          = tokens cur @ concat (map tokens (splitArticles [c] cs))"
      using True by simp
    also have "\<dots> = tokens cur @ tokens ([c] @ cs)" by (simp only: Cons.IH)
    also have "\<dots> = tokens cur @ tokens cs"
      using sp by (simp add: tokens_eq)
    also have "\<dots> = tokens (cur @ c # cs)"
      using sp by (simp add: tokens_eq tokensFrom_space)
    finally show ?thesis .
  next
    case False
    then have "splitArticles cur (c # cs) = splitArticles (cur @ [c]) cs" by auto
    with Cons.IH [of "cur @ [c]"] show ?thesis by simp
  qed
qed

lemma tokens_splitParagraphs:
  "concat (map tokens (splitParagraphs cur s)) = tokens (cur @ s)"
proof (induction cur s rule: splitParagraphs.induct)
  case (1 cur)
  show ?case by simp
next
  case (2 cur c cs)
  show ?case
  proof (cases "c = LF \<and> (case cs of [] \<Rightarrow> False | d # _ \<Rightarrow> d = LF)")
    case True
    then have sp: "isSpace c" by simp
    have "concat (map tokens (splitParagraphs cur (c # cs)))
          = tokens cur @ concat (map tokens (splitParagraphs [] (dropWhile (\<lambda>d. d = LF) cs)))"
      using True by simp
    also have "\<dots> = tokens cur @ tokens (dropWhile (\<lambda>d. d = LF) cs)"
      using "2.IH"(1) [OF True] by simp
    also have "\<dots> = tokens cur @ tokens cs"
    proof -
      have "tokensFrom [] (dropWhile (\<lambda>d. d = LF) cs) = tokensFrom [] cs"
        by (rule tokensFrom_dropWhile) simp
      then show ?thesis by (simp only: tokens_eq)
    qed
    also have "\<dots> = tokens (cur @ c # cs)"
      using sp by (simp add: tokens_eq tokensFrom_space)
    finally show ?thesis .
  next
    case False
    then have "splitParagraphs cur (c # cs) = splitParagraphs (cur @ [c]) cs" by auto
    with "2.IH"(2) [OF False] show ?thesis by simp
  qed
qed

lemma tokens_mergeSegments:
  assumes "sep \<noteq> []" "\<forall>c \<in> set sep. isSpace c"
  shows "concat (map tokens (mergeSegments sep cur segs)) = tokens cur @ concat (map tokens segs)"
proof (induction segs arbitrary: cur)
  case Nil
  show ?case by (auto simp: tokens_trim tokens_blank)
next
  case (Cons a segs)
  show ?case
    by (simp add: Cons.IH tokens_trim tokens_sep [OF assms])
qed

lemma createChunks_tokens: "concat (map tokens (createChunks text)) = tokens text"
proof -
  define arts where "arts = filter (\<lambda>s. truthy (trim s)) (splitArticles [] text)"
  define pars where "pars = filter (\<lambda>p. truthy (trim p)) (splitParagraphs [] text)"
  have a: "concat (map tokens arts) = tokens text"
    unfolding arts_def by (simp add: tokens_concat_filter tokens_splitArticles)
  have p: "concat (map tokens pars) = tokens text"
    unfolding pars_def by (simp add: tokens_concat_filter tokens_splitParagraphs)
  have e: "tokens [] = []" by (simp add: tokens_eq)
  have "createChunks text =
          (if length arts > 1 then mergeSegments [LF] [] arts else mergeSegments [LF, LF] [] pars)"
    by (simp add: createChunks_def Let_def arts_def pars_def)
  then show ?thesis
    by (simp add: tokens_mergeSegments a p e)
qed

subsection \<open>Chunks are trimmed\<close>

lemma trim_trim: "trim (trim s) = trim s"
proof (cases "trim s = []")
  case True
  then show ?thesis by simp
next
  case False
  define u where "u = dropWhile isSpace s"
  have t: "trim s = rev (dropWhile isSpace (rev u))"
    by (simp add: trim_def u_def)
  have ne: "dropWhile isSpace (rev u) \<noteq> []" using False t by simp
  then have l: "\<not> isSpace (hd (dropWhile isSpace (rev u)))" by (rule hd_dropWhile)
  have idem: "dropWhile isSpace (dropWhile isSpace (rev u)) = dropWhile isSpace (rev u)"
    using l by (simp add: dropWhile_eq_self_iff)
  have "trim s @ rev (takeWhile isSpace (rev u)) = rev (takeWhile isSpace (rev u) @ dropWhile isSpace (rev u))"
    unfolding t by (rule rev_append [symmetric])
  also have "\<dots> = u" by (simp only: takeWhile_dropWhile_id rev_rev_ident)
  finally have "hd u = hd (trim s)" using False by (metis hd_append2)
  moreover have "u \<noteq> []" using False t by auto
  then have "\<not> isSpace (hd u)" unfolding u_def by (rule hd_dropWhile)
  ultimately have "\<not> isSpace (hd (trim s))" by simp
  then have front: "dropWhile isSpace (trim s) = trim s"
    by (simp add: dropWhile_eq_self_iff)
  have "trim (trim s) = rev (dropWhile isSpace (rev (trim s)))"
    unfolding trim_def [of "trim s"] front ..
  also have "rev (trim s) = dropWhile isSpace (rev u)" by (simp add: t)
  also have "rev (dropWhile isSpace (dropWhile isSpace (rev u))) = trim s"
    by (simp only: idem t)
  finally show ?thesis .
qed

lemma mergeSegments_trimmed:
  "c \<in> set (mergeSegments sep cur segs) \<Longrightarrow> trim c = c"
  by (induction segs arbitrary: cur) (auto simp: trim_trim split: if_splits)

lemma createChunks_trimmed: "c \<in> set (createChunks text) \<Longrightarrow> trim c = c"
  by (auto simp: createChunks_def Let_def mergeSegments_trimmed split: if_splits)

lemma createChunks_twoArticles:
  "createChunks twoArticles
   = [ascii ''x'' @ [LF, LF] @ ascii ''Art. 1 a'' @ [LF, LF] @ ascii ''Art. 2 b'']"
  by code_simp

text \<open>
  C1, as stated, at \<open>twoParagraphs\<close>: the text has no article heading, so it is cut at
  the empty line; the first paragraph alone exceeds the chunk size, so each paragraph is
  flushed as its own chunk, trimmed. The two chunks concatenated are 6002 code units,
  the text is 6004: the separating line feeds are gone.
\<close>

theorem createChunks_concat_counterexample:
  "chunkSize * 2 < length twoParagraphs \<and> concat (createChunks twoParagraphs) \<noteq> twoParagraphs"
proof -
  have "length (concat (createChunks twoParagraphs)) = 6002"
    by (simp add: createChunks_twoParagraphs)
  moreover have "length twoParagraphs = 6004"
    by (simp add: twoParagraphs_def)
  ultimately show ?thesis by (auto simp: chunkSize_def)
qed

text \<open>
  C1, amended: for every text, every chunk returned by \<open>createChunks\<close> is non-empty,
  holds a character that is not white space, and is trimmed (it neither starts nor ends
  with white space); and the tokens of the chunks, chunk after chunk, are exactly the
  tokens of the text, in the text's order: no token is dropped, duplicated, cut, joined
  to another or moved. In particular the chunks concatenated hold exactly the
  non-white-space characters of the text, in order. The white space between two tokens
  is not kept as it is: at \<open>twoParagraphs\<close> the empty line is dropped, and at
  \<open>twoArticles\<close> a line feed is added before each heading
  (\<open>createChunks_twoArticles\<close>).
\<close>

theorem createChunks_preserves_content:
  "(\<forall>c \<in> set (createChunks text). c \<noteq> [] \<and> nonSpace c \<noteq> [] \<and> trim c = c) \<and>
   concat (map tokens (createChunks text)) = tokens text \<and>
   nonSpace (concat (createChunks text)) = nonSpace text"
proof -
  have "\<forall>c \<in> set (createChunks text). nonSpace c \<noteq> []"
    using createChunks_nonblank by blast
  moreover have "\<forall>c. nonSpace c \<noteq> [] \<longrightarrow> c \<noteq> []"
    by auto
  moreover have "\<forall>c \<in> set (createChunks text). trim c = c"
    using createChunks_trimmed by blast
  ultimately show ?thesis
    using createChunks_nonSpace createChunks_tokens by blast
qed

theorem createChunks_preserves_content_witness:
  "replicate 3001 97 \<in> set (createChunks twoParagraphs) \<and>
   replicate 3001 (97 :: jschar) \<noteq> [] \<and>
   nonSpace (replicate 3001 (97 :: jschar)) \<noteq> [] \<and>
   trim (replicate 3001 (97 :: jschar)) = replicate 3001 97 \<and>
   concat (map tokens (createChunks twoParagraphs)) = tokens twoParagraphs \<and>
   nonSpace (concat (createChunks twoParagraphs)) = nonSpace twoParagraphs"
proof -
  have "replicate 3001 97 \<in> set (createChunks twoParagraphs)"
    by (simp add: createChunks_twoParagraphs)
  with createChunks_preserves_content [of twoParagraphs] show ?thesis
    by blast
qed


section \<open>Aggregation\<close>

lemma foldl_wordCount:
  "foldl (\<lambda>sum chunk. sum + ChunkResult.wordCount chunk) a chunkResults
   = a + sum_list (map ChunkResult.wordCount chunkResults)"
  by (induction chunkResults arbitrary: a) auto

lemma mapSet_keys: "map fst (mapSet m k v) = (if k \<in> fst ` set m then map fst m else map fst m @ [k])"
  by (induction m) (force simp: image_iff)+

lemma set_mapSet_keys: "set (map fst (mapSet m k v)) = insert k (set (map fst m))"
  unfolding mapSet_keys by auto

lemma distinct_mapSet: "distinct (map fst m) \<Longrightarrow> distinct (map fst (mapSet m k v))"
  by (simp add: mapSet_keys)

lemma distinct_merge_entries:
  "distinct (map fst m) \<Longrightarrow>
   distinct (map fst (foldl (\<lambda>m (k, count). mapSet m k (getOrZero m k + count)) m entries))"
  by (induction entries arbitrary: m) (auto simp: distinct_mapSet split: prod.splits)

lemma distinct_foldl_merge:
  "distinct (map fst m) \<Longrightarrow>
   distinct (map fst (foldl (\<lambda>merged entries.
              foldl (\<lambda>m (k, count). mapSet m k (getOrZero m k + count)) merged entries)
       m entryLists))"
  by (induction entryLists arbitrary: m) (auto simp: distinct_merge_entries)

lemma distinct_mergeCounts: "distinct (map fst (mergeCounts entryLists))"
  unfolding mergeCounts_def by (rule distinct_foldl_merge) simp

lemma distinct_sortByCountDesc:
  "distinct (map fst entries) \<Longrightarrow> distinct (map fst (sortByCountDesc entries))"
proof -
  assume d: "distinct (map fst entries)"
  have "mset (map fst (sortByCountDesc entries)) = mset (map fst entries)"
    by (simp add: sortByCountDesc_def)
  then show ?thesis using d by (metis mset_eq_imp_distinct_iff)
qed

lemma consolidate_wordCount:
  "ConsolidatedResult.wordCount (consolidateChunkResults chunkResults originalText)
   = sum_list (map ChunkResult.wordCount chunkResults)"
  by (simp add: consolidateChunkResults_def Let_def foldl_wordCount)

lemma consolidate_topWords:
  "length (ConsolidatedResult.topWords (consolidateChunkResults chunkResults originalText)) \<le> 5"
  by (simp add: consolidateChunkResults_def Let_def)

lemma consolidate_legalTerms:
  "distinct (map fst (ConsolidatedResult.legalTerms (consolidateChunkResults chunkResults originalText)))"
  by (simp add: consolidateChunkResults_def Let_def distinct_sortByCountDesc distinct_mergeCounts)

lemma analyzeWithChunking_consolidated:
  "ConsolidatedResult.truncate (fst (analyzeWithChunking toLowerCase analyzeSentiment latency text))
   = consolidateChunkResults (chunkResultsOf toLowerCase analyzeSentiment latency text) text"
  by (simp add: analyzeWithChunking_def chunkResultsOf_def Let_def split: prod.splits)
     (simp add: ConsolidatedResult.truncate_def ConsolidatedResult.extend_def)

lemma analyzeWithChunking_fields:
  "ConsolidatedResult.wordCount (fst (analyzeWithChunking toLowerCase analyzeSentiment latency text))
   = ConsolidatedResult.wordCount
       (consolidateChunkResults (chunkResultsOf toLowerCase analyzeSentiment latency text) text)"
  "ConsolidatedResult.topWords (fst (analyzeWithChunking toLowerCase analyzeSentiment latency text))
   = ConsolidatedResult.topWords
       (consolidateChunkResults (chunkResultsOf toLowerCase analyzeSentiment latency text) text)"
  "ConsolidatedResult.legalTerms (fst (analyzeWithChunking toLowerCase analyzeSentiment latency text))
   = ConsolidatedResult.legalTerms
       (consolidateChunkResults (chunkResultsOf toLowerCase analyzeSentiment latency text) text)"
  by (simp_all add: analyzeWithChunking_def chunkResultsOf_def Let_def ConsolidatedResult.extend_def
      split: prod.splits)

section \<open>The batches: results and progress\<close>

lemma chunkCallback_result:
  "fst (chunkCallback toLowerCase analyzeSentiment totalChunks ic st)
   = callbackResult toLowerCase analyzeSentiment ic"
  by (simp add: chunkCallback_def callbackResult_def Let_def split: sum.splits)

lemma chunkIndex_callbackResult:
  "chunkIndex (callbackResult toLowerCase analyzeSentiment ic) = fst ic"
  by (auto simp: callbackResult_def analyzeChunk_def degradedResult_def Let_def split: sum.splits if_splits)

lemma foldl_callbacks_results:
  "fst (foldl (\<lambda>(settled, s) ic.
                 let (r, s') = chunkCallback toLowerCase analyzeSentiment totalChunks ic s
                 in (settled @ [r], s'))
          (settled0, st) ics)
   = settled0 @ map (callbackResult toLowerCase analyzeSentiment) ics"
proof (induction ics arbitrary: settled0 st)
  case Nil
  show ?case by simp
next
  case (Cons ic ics)
  obtain r s' where c: "chunkCallback toLowerCase analyzeSentiment totalChunks ic st = (r, s')"
    by (cases "chunkCallback toLowerCase analyzeSentiment totalChunks ic st")
  then have "r = callbackResult toLowerCase analyzeSentiment ic"
    using chunkCallback_result [of toLowerCase analyzeSentiment totalChunks ic st] by simp
  with c Cons.IH [of "settled0 @ [r]" s'] show ?case by simp
qed

lemma sort_key_map_comp: "sort_key f (map g xs) = map g (sort_key (\<lambda>x. f (g x)) xs)"
proof (induction xs)
  case Nil
  show ?case by simp
next
  case (Cons x xs)
  have "insort_key f (g x) (map g ys) = map g (insort_key (\<lambda>x. f (g x)) x ys)" for ys
    by (induction ys) auto
  with Cons show ?case by simp
qed

lemma processBatch_results:
  assumes "sorted (map fst batch)" "distinct (map fst batch)"
  shows "fst (processBatch toLowerCase analyzeSentiment latency totalChunks batch st)
         = map (callbackResult toLowerCase analyzeSentiment) batch"
proof -
  let ?perm = "sort_key (\<lambda>ic. latency (fst ic)) batch"
  have inj: "inj_on fst (set ?perm)"
    using assms(2) by (simp add: distinct_map)
  have unsort: "sort_key fst ?perm = batch"
    by (rule sort_key_inj_key_eq [OF _ inj assms(1)]) simp
  have "(\<lambda>ic. chunkIndex (callbackResult toLowerCase analyzeSentiment ic)) = fst"
    by (rule ext) (simp add: chunkIndex_callbackResult)
  then have "sort_key chunkIndex (map (callbackResult toLowerCase analyzeSentiment) ?perm)
        = map (callbackResult toLowerCase analyzeSentiment) batch"
    by (simp add: sort_key_map_comp unsort)
  then show ?thesis
    using foldl_callbacks_results [of toLowerCase analyzeSentiment totalChunks "[]" st ?perm]
    by (simp add: processBatch_def Let_def split_beta)
qed

lemma processBatches_results:
  "sorted (map fst ics) \<Longrightarrow> distinct (map fst ics) \<Longrightarrow>
   fst (processBatches toLowerCase analyzeSentiment latency totalChunks ics st)
   = map (callbackResult toLowerCase analyzeSentiment) ics"
proof (induction toLowerCase analyzeSentiment latency totalChunks ics st rule: processBatches.induct)
  case (1 toLowerCase analyzeSentiment latency totalChunks st)
  show ?case by simp
next
  case (2 toLowerCase analyzeSentiment latency totalChunks c cs st)
  let ?b = "take BATCH_SIZE (c # cs)" and ?r = "drop BATCH_SIZE (c # cs)"
  have sb: "sorted (map fst ?b)" "distinct (map fst ?b)"
    using "2.prems" by (simp_all add: take_map [symmetric] del: take_Cons')
  have sr: "sorted (map fst ?r)" "distinct (map fst ?r)"
    using "2.prems" by (simp_all add: drop_map [symmetric] del: drop_Cons')
  obtain rs st' where b: "processBatch toLowerCase analyzeSentiment latency totalChunks ?b st = (rs, st')"
    by (cases "processBatch toLowerCase analyzeSentiment latency totalChunks ?b st")
  then have rs: "rs = map (callbackResult toLowerCase analyzeSentiment) ?b"
    using processBatch_results [OF sb, of toLowerCase analyzeSentiment latency totalChunks st] by simp
  obtain rest st'' where r: "processBatches toLowerCase analyzeSentiment latency totalChunks ?r st' = (rest, st'')"
    by (cases "processBatches toLowerCase analyzeSentiment latency totalChunks ?r st'")
  have "fst (processBatches toLowerCase analyzeSentiment latency totalChunks ?r st')
        = map (callbackResult toLowerCase analyzeSentiment) ?r"
    using "2.IH" [OF b [symmetric] refl sr] .
  with r have rest: "rest = map (callbackResult toLowerCase analyzeSentiment) ?r" by simp
  have "processBatches toLowerCase analyzeSentiment latency totalChunks (c # cs) st
        = (rs @ rest, st'')"
    using b r by (simp add: Let_def del: take_Cons' drop_Cons')
  then have "fst (processBatches toLowerCase analyzeSentiment latency totalChunks (c # cs) st)
        = map (callbackResult toLowerCase analyzeSentiment) ?b
          @ map (callbackResult toLowerCase analyzeSentiment) ?r"
    using rs rest by simp
  also have "\<dots> = map (callbackResult toLowerCase analyzeSentiment) (?b @ ?r)"
    by (simp only: map_append)
  finally show ?case by (simp only: append_take_drop_id)
qed

lemma chunkResultsOf_eq:
  "chunkResultsOf toLowerCase analyzeSentiment latency text
   = map (callbackResult toLowerCase analyzeSentiment)
       (zip [0..<length (createChunks text)] (createChunks text))"
  unfolding chunkResultsOf_def Let_def
  by (rule processBatches_results) simp_all

lemma chunkResultsOf_nth:
  assumes "i < length (createChunks text)"
  shows "chunkResultsOf toLowerCase analyzeSentiment latency text ! i
         = callbackResult toLowerCase analyzeSentiment (i, createChunks text ! i)"
  using assms by (simp add: chunkResultsOf_eq)

section \<open>Rounding to a double is monotone\<close>

lemma floorLog2_bounds:
  assumes "0 < x"
  shows "2 powi floorLog2 x \<le> x \<and> x < 2 powi (floorLog2 x + 1)"
proof (cases "1 \<le> x")
  case True
  define n where "n = nat \<lfloor>x\<rfloor>"
  have n: "0 < n" using True by (simp add: n_def)
  have nx: "rat_of_nat n \<le> x" "x < rat_of_nat n + 1"
    using True by (simp_all add: n_def of_nat_nat) linarith+
  from floorlog_bounds [where b = 2 and x = n] n
  have b: "2 ^ (floorlog 2 n - 1) \<le> n" "n < 2 ^ floorlog 2 n" by simp_all
  have fl: "0 < floorlog 2 n" using n by (simp add: floorlog_def)
  have e: "floorLog2 x = int (floorlog 2 n - 1)"
    using True fl by (simp add: floorLog2_def n_def)
  have "(2::rat) powi floorLog2 x = of_nat (2 ^ (floorlog 2 n - 1))"
    by (simp add: e)
  also have "\<dots> \<le> of_nat n" using b(1) by (simp only: of_nat_le_iff)
  finally have lo: "2 powi floorLog2 x \<le> x" using nx(1) by linarith
  have "floorLog2 x + 1 = int (floorlog 2 n)" using e fl by simp
  then have "(2::rat) powi (floorLog2 x + 1) = of_nat (2 ^ floorlog 2 n)"
    by simp
  moreover have "rat_of_nat n + 1 \<le> of_nat (2 ^ floorlog 2 n)"
  proof -
    have "Suc n \<le> 2 ^ floorlog 2 n" using b(2) by simp
    then have "rat_of_nat (Suc n) \<le> rat_of_nat (2 ^ floorlog 2 n)"
      by (simp only: of_nat_le_iff)
    then show ?thesis by simp
  qed
  ultimately show ?thesis using lo nx(2) by linarith
next
  case False
  define m where "m = nat \<lceil>1 / x\<rceil>"
  have ix: "1 < 1 / x" using False assms by simp
  then have m1: "1 < m" unfolding m_def by linarith
  have mx: "1 / x \<le> rat_of_nat m"
    unfolding m_def using ix by (simp add: of_nat_nat) 
  have e: "floorLog2 x = - int (ceillog2 m)"
    using False by (simp add: floorLog2_def m_def)
  have "m \<le> 2 ^ ceillog2 m" by (rule le_two_power_ceillog2)
  then have "rat_of_nat m \<le> rat_of_nat (2 ^ ceillog2 m)"
    by (simp only: of_nat_le_iff)
  then have "rat_of_nat m \<le> 2 ^ ceillog2 m" by simp
  with mx have "1 / x \<le> 2 ^ ceillog2 m" by linarith
  then have "1 / 2 ^ ceillog2 m \<le> x"
    using assms by (simp add: field_simps)
  then have lo: "2 powi floorLog2 x \<le> x"
    by (simp add: e power_int_minus_divide)
  have cpos: "0 < ceillog2 m"
  proof (rule ccontr)
    assume "\<not> 0 < ceillog2 m"
    then have "ceillog2 m = 0" by simp
    with le_two_power_ceillog2 [of m] have "m \<le> 1" by simp
    with m1 show False by simp
  qed
  have "2 ^ ceillog2 m < 2 * m" using m1 two_power_ceillog2_gt [of m] by simp
  moreover have "(2::nat) ^ ceillog2 m = 2 * 2 ^ (ceillog2 m - 1)"
    using cpos by (cases "ceillog2 m") simp_all
  ultimately have "2 ^ (ceillog2 m - 1) < m" by simp
  then have "int (2 ^ (ceillog2 m - 1)) < \<lceil>1 / x\<rceil>"
    unfolding m_def by linarith
  then have "rat_of_int (int (2 ^ (ceillog2 m - 1))) < 1 / x"
    by (simp only: less_ceiling_iff)
  then have lt: "2 ^ (ceillog2 m - 1) < 1 / x" by simp
  have "floorLog2 x + 1 = - int (ceillog2 m - 1)" using e cpos by simp
  then have "(2::rat) powi (floorLog2 x + 1) = 1 / 2 ^ (ceillog2 m - 1)"
    by (simp add: power_int_minus_divide)
  moreover have "x < 1 / 2 ^ (ceillog2 m - 1)"
    using lt assms by (simp add: field_simps)
  ultimately show ?thesis using lo by simp
qed


lemma roundHalfEven_range: "\<lfloor>x\<rfloor> \<le> roundHalfEven x \<and> roundHalfEven x \<le> \<lfloor>x\<rfloor> + 1"
  by (simp add: roundHalfEven_def Let_def)

lemma roundHalfEven_of_int [simp]: "roundHalfEven (of_int n) = n"
  by (simp add: roundHalfEven_def Let_def)

lemma roundHalfEven_mono:
  assumes "x \<le> y"
  shows "roundHalfEven x \<le> roundHalfEven y"
proof (cases "\<lfloor>x\<rfloor> = \<lfloor>y\<rfloor>")
  case True
  then have "x - of_int \<lfloor>x\<rfloor> \<le> y - of_int \<lfloor>y\<rfloor>" using assms by simp
  with True show ?thesis by (auto simp: roundHalfEven_def Let_def)
next
  case False
  then have "\<lfloor>x\<rfloor> + 1 \<le> \<lfloor>y\<rfloor>" using floor_mono [OF assms] by linarith
  with roundHalfEven_range [of x] roundHalfEven_range [of y] show ?thesis by linarith
qed

lemma toDouble_pos_bounds:
  assumes "0 < x"
  shows "2 powi floorLog2 x \<le> toDouble x \<and> toDouble x \<le> 2 powi (floorLog2 x + 1)"
proof -
  define u :: rat where "u = 2 powi (floorLog2 x - 52)"
  have u: "0 < u" by (simp add: u_def)
  have td: "toDouble x = of_int (roundHalfEven (x / u)) * u"
    using assms by (simp add: toDouble_def u_def Let_def)
  have p: "(2::rat) powi floorLog2 x = 2 ^ 52 * u"
    unfolding u_def by (simp add: power_int_diff)
  have q: "(2::rat) powi (floorLog2 x + 1) = 2 ^ 53 * u"
    unfolding u_def by (simp add: power_int_diff power_int_add)
  from floorLog2_bounds [OF assms] p q u
  have b: "rat_of_int (2 ^ 52) \<le> x / u" "x / u \<le> rat_of_int (2 ^ 53)"
    by (simp_all add: field_simps)
  have "roundHalfEven (rat_of_int (2 ^ 52)) \<le> roundHalfEven (x / u)"
            "roundHalfEven (x / u) \<le> roundHalfEven (rat_of_int (2 ^ 53))"
    by (rule roundHalfEven_mono [OF b(1)], rule roundHalfEven_mono [OF b(2)])
  then have "2 ^ 52 \<le> roundHalfEven (x / u)" "roundHalfEven (x / u) \<le> 2 ^ 53"
    by (simp_all only: roundHalfEven_of_int)
  then have "rat_of_int (2 ^ 52) \<le> of_int (roundHalfEven (x / u))"
            "rat_of_int (roundHalfEven (x / u)) \<le> of_int (2 ^ 53)"
    by (simp_all only: of_int_le_iff)
  then have "2 ^ 52 * u \<le> of_int (roundHalfEven (x / u)) * u"
            "of_int (roundHalfEven (x / u)) * u \<le> 2 ^ 53 * u"
    using u by simp_all
  then show ?thesis by (simp add: td p q)
qed

lemma floorLog2_mono:
  assumes "0 < x" "x \<le> y"
  shows "floorLog2 x \<le> floorLog2 y"
proof (rule ccontr)
  assume "\<not> floorLog2 x \<le> floorLog2 y"
  then have "floorLog2 y + 1 \<le> floorLog2 x" by simp
  then have "(2::rat) powi (floorLog2 y + 1) \<le> 2 powi floorLog2 x"
    by (simp add: power_int_increasing)
  moreover have "0 < y" using assms by simp
  ultimately show False
    using floorLog2_bounds [OF assms(1)] floorLog2_bounds [of y] assms(2) by linarith
qed

lemma toDouble_mono:
  assumes "0 \<le> x" "x \<le> y"
  shows "toDouble x \<le> toDouble y"
proof (cases "x = 0")
  case True
  show ?thesis
  proof (cases "y = 0")
    case True
    with \<open>x = 0\<close> show ?thesis by simp
  next
    case False
    then have "0 < y" using assms by simp
    from toDouble_pos_bounds [OF this] have "0 \<le> toDouble y"
      by (meson order_trans zero_le_numeral zero_le_power_int)
    with True show ?thesis by (simp add: toDouble_def)
  qed
next
  case False
  then have x: "0 < x" and y: "0 < y" using assms by simp_all
  show ?thesis
  proof (cases "floorLog2 x = floorLog2 y")
    case True
    define u :: rat where "u = 2 powi (floorLog2 x - 52)"
    have u: "0 < u" by (simp add: u_def)
    have "x / u \<le> y / u" using assms(2) u by (simp add: divide_right_mono)
    then have "roundHalfEven (x / u) \<le> roundHalfEven (y / u)" by (rule roundHalfEven_mono)
    then have "rat_of_int (roundHalfEven (x / u)) \<le> of_int (roundHalfEven (y / u))"
      by (simp only: of_int_le_iff)
    then have "of_int (roundHalfEven (x / u)) * u \<le> of_int (roundHalfEven (y / u)) * u"
      using u by simp
    then show ?thesis using x y True by (simp add: toDouble_def u_def Let_def)
  next
    case False
    then have "floorLog2 x + 1 \<le> floorLog2 y"
      using floorLog2_mono [OF x assms(2)] by simp
    then have "(2::rat) powi (floorLog2 x + 1) \<le> 2 powi floorLog2 y"
      by (simp add: power_int_increasing)
    then show ?thesis
      using toDouble_pos_bounds [OF x] toDouble_pos_bounds [OF y] by linarith
  qed
qed

lemma toDouble_nonneg: "0 \<le> x \<Longrightarrow> 0 \<le> toDouble x"
  using toDouble_mono [of 0 x] by (simp add: toDouble_def)

lemma percentageOf_mono:
  assumes "c \<le> c'"
  shows "percentageOf c t \<le> percentageOf c' t"
proof -
  have "rat_of_nat c / of_nat t \<le> of_nat c' / of_nat t"
    using assms by (simp add: divide_right_mono)
  moreover have "0 \<le> rat_of_nat c / of_nat t" by simp
  ultimately have d: "numDiv (of_nat c) (of_nat t) \<le> numDiv (of_nat c') (of_nat t)"
    unfolding numDiv_def by (rule toDouble_mono [rotated])
  have "0 \<le> numDiv (rat_of_nat c) (of_nat t)"
    unfolding numDiv_def by (rule toDouble_nonneg) simp
  then have "0 \<le> numDiv (of_nat c) (of_nat t) * 100" by simp
  moreover have "numDiv (of_nat c) (of_nat t) * 100 \<le> numDiv (of_nat c') (of_nat t) * 100"
    using d by simp
  ultimately have "numMul (numDiv (of_nat c) (of_nat t)) 100
                 \<le> numMul (numDiv (of_nat c') (of_nat t)) 100"
    unfolding numMul_def by (rule toDouble_mono)
  then show ?thesis
    unfolding percentageOf_def Math_round_def by (intro floor_mono) simp
qed

section \<open>Progress events\<close>

lemma chunkCallback_progress:
  assumes "emitted st = progressUpTo totalChunks (processedChunks st)"
  shows "emitted (snd (chunkCallback toLowerCase analyzeSentiment totalChunks ic st))
         = progressUpTo totalChunks
             (processedChunks (snd (chunkCallback toLowerCase analyzeSentiment totalChunks ic st)))"
  using assms by (simp add: chunkCallback_def progressUpTo_def Let_def split: sum.splits)

lemma foldl_callbacks_progress:
  "emitted st = progressUpTo totalChunks (processedChunks st) \<Longrightarrow>
   emitted (snd (foldl (\<lambda>(settled, s) ic.
                 let (r, s') = chunkCallback toLowerCase analyzeSentiment totalChunks ic s
                 in (settled @ [r], s'))
          (settled0, st) ics))
   = progressUpTo totalChunks
       (processedChunks (snd (foldl (\<lambda>(settled, s) ic.
                 let (r, s') = chunkCallback toLowerCase analyzeSentiment totalChunks ic s
                 in (settled @ [r], s'))
          (settled0, st) ics)))"
proof (induction ics arbitrary: settled0 st)
  case Nil
  then show ?case by simp
next
  case (Cons ic ics)
  obtain r s' where c: "chunkCallback toLowerCase analyzeSentiment totalChunks ic st = (r, s')"
    by (cases "chunkCallback toLowerCase analyzeSentiment totalChunks ic st")
  have "emitted s' = progressUpTo totalChunks (processedChunks s')"
    using chunkCallback_progress [OF Cons.prems, of toLowerCase analyzeSentiment ic] c by simp
  from Cons.IH [OF this, of "settled0 @ [r]"] c show ?case by simp
qed

lemma processBatch_progress:
  assumes "emitted st = progressUpTo totalChunks (processedChunks st)"
  shows "emitted (snd (processBatch toLowerCase analyzeSentiment latency totalChunks batch st))
         = progressUpTo totalChunks
             (processedChunks (snd (processBatch toLowerCase analyzeSentiment latency totalChunks batch st)))"
  using foldl_callbacks_progress [OF assms, of toLowerCase analyzeSentiment "[]"
          "sort_key (\<lambda>ic. latency (fst ic)) batch"]
  by (simp add: processBatch_def Let_def split_beta)

lemma processBatches_progress:
  "emitted st = progressUpTo totalChunks (processedChunks st) \<Longrightarrow>
   emitted (snd (processBatches toLowerCase analyzeSentiment latency totalChunks ics st))
   = progressUpTo totalChunks
       (processedChunks (snd (processBatches toLowerCase analyzeSentiment latency totalChunks ics st)))"
proof (induction toLowerCase analyzeSentiment latency totalChunks ics st rule: processBatches.induct)
  case (1 toLowerCase analyzeSentiment latency totalChunks st)
  then show ?case by simp
next
  case (2 toLowerCase analyzeSentiment latency totalChunks c cs st)
  let ?b = "take BATCH_SIZE (c # cs)" and ?r = "drop BATCH_SIZE (c # cs)"
  obtain rs st' where b: "processBatch toLowerCase analyzeSentiment latency totalChunks ?b st = (rs, st')"
    by (cases "processBatch toLowerCase analyzeSentiment latency totalChunks ?b st")
  have st': "emitted st' = progressUpTo totalChunks (processedChunks st')"
    using processBatch_progress [OF "2.prems", of toLowerCase analyzeSentiment latency ?b] b by simp
  obtain rest st'' where r: "processBatches toLowerCase analyzeSentiment latency totalChunks ?r st' = (rest, st'')"
    by (cases "processBatches toLowerCase analyzeSentiment latency totalChunks ?r st'")
  have "emitted st'' = progressUpTo totalChunks (processedChunks st'')"
    using "2.IH" [OF b [symmetric] refl st'] r by simp
  moreover have "processBatches toLowerCase analyzeSentiment latency totalChunks (c # cs) st
        = (rs @ rest, st'')"
    using b r by (simp add: Let_def del: take_Cons' drop_Cons')
  ultimately show ?case by simp
qed

lemma analyzeWithChunking_events:
  "\<exists>p. snd (analyzeWithChunking toLowerCase analyzeSentiment latency text)
          = progressUpTo (length (createChunks text)) p \<and>
        chunksProcessed (fst (analyzeWithChunking toLowerCase analyzeSentiment latency text))
          = Some p"
proof -
  let ?st0 = "\<lparr>processedChunks = 0, emitted = []\<rparr>"
  let ?n = "length (createChunks text)"
  obtain rs st where r: "processBatches toLowerCase analyzeSentiment latency ?n
        (zip [0..<?n] (createChunks text)) ?st0 = (rs, st)"
    by (cases "processBatches toLowerCase analyzeSentiment latency ?n
        (zip [0..<?n] (createChunks text)) ?st0")
  have "emitted ?st0 = progressUpTo ?n (processedChunks ?st0)"
    by (simp add: progressUpTo_def)
  from processBatches_progress [OF this, of toLowerCase analyzeSentiment latency
      "zip [0..<?n] (createChunks text)"] r
  have "emitted st = progressUpTo ?n (processedChunks st)" by simp
  moreover have "snd (analyzeWithChunking toLowerCase analyzeSentiment latency text) = emitted st"
    using r by (simp add: analyzeWithChunking_def Let_def)
  moreover have "chunksProcessed (fst (analyzeWithChunking toLowerCase analyzeSentiment latency text))
      = Some (processedChunks st)"
    using r by (simp add: analyzeWithChunking_def Let_def ConsolidatedResult.extend_def)
  ultimately show ?thesis by simp
qed

lemma progressUpTo_props:
  "map current (progressUpTo n p) = [1..<Suc p]"
  "length (progressUpTo n p) = p"
  "map total (progressUpTo n p) = replicate p n"
  "sorted (map percentage (progressUpTo n p))"
proof -
  show "map current (progressUpTo n p) = [1..<Suc p]"
    by (simp add: progressUpTo_def comp_def)
  show "length (progressUpTo n p) = p"
    by (simp add: progressUpTo_def)
  show "map total (progressUpTo n p) = replicate p n"
    by (simp add: progressUpTo_def comp_def map_replicate_const)
  have "sorted [1..<Suc p]" by (rule sorted_upt)
  then have "sorted_wrt (\<lambda>c c'. percentageOf c n \<le> percentageOf c' n) [1..<Suc p]"
    by (rule sorted_wrt_mono_rel [rotated]) (rule percentageOf_mono)
  then show "sorted (map percentage (progressUpTo n p))"
    by (simp add: progressUpTo_def comp_def sorted_map)
qed

lemma trim_twoParagraphs: "trim twoParagraphs = twoParagraphs"
proof -
  have a: "dropWhile isSpace (replicate 3001 97 @ LF # LF # replicate 3001 98)
           = replicate 3001 97 @ LF # LF # replicate 3001 98"
    by (subst dropWhile_append1 [of 97]) (simp_all add: dropWhile_replicate not_isSpace_ab)
  have b: "dropWhile isSpace (replicate 3001 98 @ LF # LF # replicate 3001 97)
           = replicate 3001 98 @ LF # LF # replicate 3001 97"
    by (subst dropWhile_append1 [of 98]) (simp_all add: dropWhile_replicate not_isSpace_ab)
  show ?thesis
    by (simp add: trim_def twoParagraphs_def a b)
qed

lemma validateInput_twoParagraphs: "validateInput twoParagraphs = Inr ()"
proof -
  have "length twoParagraphs = 6004" by (simp add: twoParagraphs_def)
  moreover from this have "twoParagraphs \<noteq> []" by auto
  ultimately show ?thesis
    by (simp add: validateInput_def truthy_def trim_twoParagraphs maxTextSize_def)
qed

text \<open>
  C2: the word count of the consolidated result is the sum of the word counts of the
  chunk results, for every list of chunk results, and so for the chunk results of every
  chunked analysis (whatever the sentiment provider answers and in whatever order the
  chunks settle).
\<close>

theorem chunked_wordCount_is_sum:
  "ConsolidatedResult.wordCount (consolidateChunkResults chunkResults originalText)
     = sum_list (map ChunkResult.wordCount chunkResults) \<and>
   ConsolidatedResult.wordCount (fst (analyzeWithChunking toLowerCase analyzeSentiment latency text))
     = sum_list (map ChunkResult.wordCount
                   (chunkResultsOf toLowerCase analyzeSentiment latency text))"
  by (simp add: analyzeWithChunking_fields consolidate_wordCount)

text \<open>
  C8: in the consolidated result of any list of chunk results, \<open>topWords\<close> has at most
  five entries and no term occurs twice in \<open>legalTerms\<close>.
\<close>

theorem consolidated_topWords_legalTerms:
  "length (ConsolidatedResult.topWords (consolidateChunkResults chunkResults originalText)) \<le> 5 \<and>
   distinct (map fst (ConsolidatedResult.legalTerms
                        (consolidateChunkResults chunkResults originalText)))"
  by (simp add: consolidate_topWords consolidate_legalTerms)

text \<open>
  In binary64, \<open>29 / 200 * 100\<close> is just below 14.5 and rounds to 14, where exact
  arithmetic gives 15.
\<close>

lemma percentageOf_examples:
  "percentageOf 29 200 = 14" "percentageOf 1 8 = 13"
  "percentageOf (Suc 0) (Suc (Suc 0)) = 50" "percentageOf (Suc (Suc 0)) (Suc (Suc 0)) = 100"
  by code_simp+

text \<open>
  The two chunks of \<open>twoParagraphs\<close>, the second settling before the first: the events
  are still 1 of 2 at 50 percent, then 2 of 2 at 100 percent.
\<close>

lemma progress_twoParagraphs:
  "snd (analyzeWithChunking (\<lambda>s. s) okProvider (\<lambda>i. 2 - i) twoParagraphs)
   = [\<lparr>current = 1, total = 2, percentage = 50\<rparr>, \<lparr>current = 2, total = 2, percentage = 100\<rparr>]"
proof -
  have z: "zip [0..<2] [replicate 3001 (97 :: jschar), replicate 3001 98]
           = [(0, replicate 3001 97), (1, replicate 3001 98)]"
  proof -
    have "[0..<2] = [0, 1 :: nat]" by code_simp
    then show ?thesis by simp
  qed
  show ?thesis
    by (simp add: analyzeWithChunking_def createChunks_twoParagraphs z Let_def BATCH_SIZE_def
        processBatch_def chunkCallback_def analyzeChunk_def okProvider_def percentageOf_examples
        split_beta)
qed

text \<open>
  C9: in a chunked analysis, whatever the provider answers and in whatever order the
  chunks of a batch settle (any \<open>latency\<close>), the progress events emitted carry the
  counts 1, 2, 3, \<dots> in the order of emission (strictly increasing), the number of
  chunks as \<open>total\<close>, and percentages that never decrease; the last count is the
  \<open>chunksProcessed\<close> of the result.
\<close>

theorem progress_monotone:
  "map current (snd (analyzeWithChunking toLowerCase analyzeSentiment latency text))
     = [1..<Suc (length (snd (analyzeWithChunking toLowerCase analyzeSentiment latency text)))] \<and>
   sorted (map percentage (snd (analyzeWithChunking toLowerCase analyzeSentiment latency text))) \<and>
   map percentage (snd (analyzeWithChunking toLowerCase analyzeSentiment latency text))
     = map (\<lambda>e. Math_round (numMul (numDiv (of_nat (current e)) (of_nat (total e))) 100))
         (snd (analyzeWithChunking toLowerCase analyzeSentiment latency text)) \<and>
   map total (snd (analyzeWithChunking toLowerCase analyzeSentiment latency text))
     = replicate (length (snd (analyzeWithChunking toLowerCase analyzeSentiment latency text)))
         (length (createChunks text)) \<and>
   chunksProcessed (fst (analyzeWithChunking toLowerCase analyzeSentiment latency text))
     = Some (length (snd (analyzeWithChunking toLowerCase analyzeSentiment latency text)))"
proof -
  obtain p where "snd (analyzeWithChunking toLowerCase analyzeSentiment latency text)
        = progressUpTo (length (createChunks text)) p"
    and "chunksProcessed (fst (analyzeWithChunking toLowerCase analyzeSentiment latency text))
        = Some p"
    using analyzeWithChunking_events by blast
  then show ?thesis
    by (simp add: progressUpTo_props) (simp add: progressUpTo_def percentageOf_def)
qed

theorem progress_monotone_witness:
  "snd (analyzeWithChunking (\<lambda>s. s) okProvider (\<lambda>i. 2 - i) twoParagraphs)
     = [\<lparr>current = 1, total = 2, percentage = 50\<rparr>,
        \<lparr>current = 2, total = 2, percentage = 100\<rparr>] \<and>
   sorted (map percentage
             (snd (analyzeWithChunking (\<lambda>s. s) okProvider (\<lambda>i. 2 - i) twoParagraphs)))"
  using progress_monotone [of "\<lambda>s. s" okProvider "\<lambda>i. 2 - i" twoParagraphs]
    progress_twoParagraphs
  by blast

text \<open>
  C7: a text that misses the cache, passes validation and is longer than twice the chunk
  size is analysed to a result, never to an error, whatever the sentiment provider does:
  the result is the consolidation of one chunk result a chunk, and every chunk whose
  analysis throws has the degraded result (word count 0, no top words, no legal terms,
  the error marker) at its index.
\<close>

theorem chunk_failure_absorbed:
  assumes "fst (get (generateKey text) (lookupTime clock) cs) = None"
    and "validateInput text = Inr ()"
    and "chunkSize * 2 < length text"
  shows "(\<exists>result.
           fst (analyzeLegalText toLowerCase analyzeSentiment latency configTtl clock cs text)
             = Inr result \<and>
           ConsolidatedResult.truncate result
             = consolidateChunkResults (chunkResultsOf toLowerCase analyzeSentiment latency text) text) \<and>
         length (chunkResultsOf toLowerCase analyzeSentiment latency text)
           = length (createChunks text) \<and>
         (\<forall>i < length (createChunks text).
           isl (analyzeChunk toLowerCase analyzeSentiment (createChunks text ! i) i) \<longrightarrow>
           chunkResultsOf toLowerCase analyzeSentiment latency text ! i = degradedResult i \<and>
           ChunkResult.wordCount (chunkResultsOf toLowerCase analyzeSentiment latency text ! i) = 0 \<and>
           ChunkResult.topWords (chunkResultsOf toLowerCase analyzeSentiment latency text ! i) = [] \<and>
           ChunkResult.legalTerms (chunkResultsOf toLowerCase analyzeSentiment latency text ! i) = [] \<and>
           ChunkResult.error (chunkResultsOf toLowerCase analyzeSentiment latency text ! i) \<noteq> None)"
proof -
  obtain cs1 where g: "get (generateKey text) (lookupTime clock) cs = (None, cs1)"
    using assms(1) by (cases "get (generateKey text) (lookupTime clock) cs") simp
  obtain r evs where a: "analyzeWithChunking toLowerCase analyzeSentiment latency text = (r, evs)"
    by (cases "analyzeWithChunking toLowerCase analyzeSentiment latency text")
  have "fst (analyzeLegalText toLowerCase analyzeSentiment latency configTtl clock cs text)
        = Inr (r\<lparr>processingTime := endTime clock - startTime clock\<rparr>)"
    using g a assms(2,3) by (simp add: analyzeLegalText_def Let_def)
  moreover have "ConsolidatedResult.truncate (r\<lparr>processingTime := endTime clock - startTime clock\<rparr>)
        = ConsolidatedResult.truncate r"
    by (simp add: ConsolidatedResult.truncate_def)
  moreover have "ConsolidatedResult.truncate r
        = consolidateChunkResults (chunkResultsOf toLowerCase analyzeSentiment latency text) text"
    using analyzeWithChunking_consolidated [of toLowerCase analyzeSentiment latency "text"] a by simp
  ultimately have 1: "\<exists>result.
           fst (analyzeLegalText toLowerCase analyzeSentiment latency configTtl clock cs text)
             = Inr result \<and>
           ConsolidatedResult.truncate result
             = consolidateChunkResults (chunkResultsOf toLowerCase analyzeSentiment latency text) text"
    by simp
  have 2: "length (chunkResultsOf toLowerCase analyzeSentiment latency text)
           = length (createChunks text)"
    by (simp add: chunkResultsOf_eq)
  have 3: "\<forall>i < length (createChunks text).
           isl (analyzeChunk toLowerCase analyzeSentiment (createChunks text ! i) i) \<longrightarrow>
           chunkResultsOf toLowerCase analyzeSentiment latency text ! i = degradedResult i \<and>
           ChunkResult.wordCount (chunkResultsOf toLowerCase analyzeSentiment latency text ! i) = 0 \<and>
           ChunkResult.topWords (chunkResultsOf toLowerCase analyzeSentiment latency text ! i) = [] \<and>
           ChunkResult.legalTerms (chunkResultsOf toLowerCase analyzeSentiment latency text ! i) = [] \<and>
           ChunkResult.error (chunkResultsOf toLowerCase analyzeSentiment latency text ! i) \<noteq> None"
    by (auto simp: chunkResultsOf_nth callbackResult_def degradedResult_def split: sum.splits)
  from 1 2 3 show ?thesis by blast
qed

text \<open>
  The provider that fails at every call, on \<open>twoParagraphs\<close> and an empty cache: the
  analysis returns a result, and the result of chunk 0 is the degraded one.
\<close>

theorem chunk_failure_absorbed_witness:
  "fst (get (generateKey twoParagraphs) 0
         (\<lparr>cache = Map.empty, hits = 0, misses = 0\<rparr> :: LegalAnalysisResult CacheService)) = None \<and>
   validateInput twoParagraphs = Inr () \<and>
   chunkSize * 2 < length twoParagraphs \<and>
   0 < length (createChunks twoParagraphs) \<and>
   isl (analyzeChunk (\<lambda>s. s) (\<lambda>i t. Inl (Error [])) (createChunks twoParagraphs ! 0) 0) \<and>
   (\<exists>result.
      fst (analyzeLegalText (\<lambda>s. s) (\<lambda>i t. Inl (Error [])) (\<lambda>i. 0) 7200000
             \<lparr>startTime = 0, lookupTime = 0, endTime = 5, storeTime = 5\<rparr>
             \<lparr>cache = Map.empty, hits = 0, misses = 0\<rparr> twoParagraphs) = Inr result) \<and>
   chunkResultsOf (\<lambda>s. s) (\<lambda>i t. Inl (Error [])) (\<lambda>i. 0) twoParagraphs ! 0 = degradedResult 0"
proof -
  let ?cs = "\<lparr>cache = Map.empty, hits = 0, misses = 0\<rparr> :: LegalAnalysisResult CacheService"
  let ?clock = "\<lparr>startTime = 0, lookupTime = 0, endTime = 5, storeTime = 5\<rparr>"
  have h1: "fst (get (generateKey twoParagraphs) (lookupTime ?clock) ?cs) = None"
    by (simp add: get_def)
  have h2: "validateInput twoParagraphs = Inr ()"
    by (rule validateInput_twoParagraphs)
  have h3: "chunkSize * 2 < length twoParagraphs"
    by (simp add: chunkSize_def twoParagraphs_def)
  have n: "0 < length (createChunks twoParagraphs)"
    by (simp add: createChunks_twoParagraphs)
  have f: "isl (analyzeChunk (\<lambda>s. s) (\<lambda>i t. Inl (Error [])) (createChunks twoParagraphs ! 0) 0)"
    by (simp add: analyzeChunk_def Let_def)
  from chunk_failure_absorbed [OF h1 h2 h3, of "\<lambda>s. s" "\<lambda>i t. Inl (Error [])" "\<lambda>i. 0" 7200000]
  show ?thesis using h1 h2 h3 n f by auto
qed


section \<open>Legal terms are single tokens\<close>

lemma multiWordTerms_eq:
  "multiWordTerms = [ascii ''coisa julgada'', ascii ''tr'' @ [226] @ ascii ''nsito em julgado'',
                     ascii ''lucro cessante'', ascii ''dano emergente'']"
  by (simp add: multiWordTerms_def config_legalTerms_def ascii_def SP_def)

lemma isSpace_SP [simp]: "isSpace SP"
  by (simp add: isSpace_def SP_def)

lemma splitWhitespace_no_space:
  "\<forall>c \<in> set cur. \<not> isSpace c \<Longrightarrow> w \<in> set (splitWhitespace cur s) \<Longrightarrow> \<forall>c \<in> set w. \<not> isSpace c"
proof (induction cur s rule: splitWhitespace.induct)
  case (1 cur)
  then show ?case by simp
next
  case (2 cur c cs)
  show ?case
  proof (cases "isSpace c")
    case True
    then have "w = cur \<or> w \<in> set (splitWhitespace [] (dropWhile isSpace cs))"
      using "2.prems"(2) by simp
    then show ?thesis
    proof
      assume "w = cur"
      with "2.prems"(1) show ?thesis by simp
    next
      assume "w \<in> set (splitWhitespace [] (dropWhile isSpace cs))"
      with "2.IH"(1) [OF True] show ?thesis by simp
    qed
  next
    case False
    then have "w \<in> set (splitWhitespace (cur @ [c]) cs)"
      using "2.prems"(2) by simp
    moreover have "\<forall>x \<in> set (cur @ [c]). \<not> isSpace x"
      using "2.prems"(1) False by simp
    ultimately show ?thesis using "2.IH"(2) [OF False] by blast
  qed
qed

lemma extractWords_no_space:
  "w \<in> set (extractWords toLowerCase text) \<Longrightarrow> SP \<notin> set w"
proof -
  assume "w \<in> set (extractWords toLowerCase text)"
  then have "w \<in> set (splitWhitespace []
                 (map (\<lambda>c. if keepChar c then c else SP) (toLowerCase text)))"
    by (simp add: extractWords_def)
  then have "\<forall>c \<in> set w. \<not> isSpace c"
    by (rule splitWhitespace_no_space [rotated]) simp
  then show ?thesis using isSpace_SP by blast
qed

lemma keys_mapSet: "fst ` set (mapSet m k v) = insert k (fst ` set m)"
  using set_mapSet_keys [of m k v] by (simp only: set_map)

lemma count_keys_subset:
  "fst ` set (foldl (\<lambda>termFrequency word.
                 if word \<in> set config_legalTerms
                 then mapSet termFrequency word (getOrZero termFrequency word + 1)
                 else termFrequency) m words)
   \<subseteq> fst ` set m \<union> set words"
proof (induction words arbitrary: m)
  case Nil
  show ?case by simp
next
  case (Cons a words)
  let ?F = "\<lambda>termFrequency word.
                 if word \<in> set config_legalTerms
                 then mapSet termFrequency word (getOrZero termFrequency word + 1)
                 else termFrequency"
  show ?case
  proof (cases "a \<in> set config_legalTerms")
    case True
    have step: "foldl ?F m (a # words) = foldl ?F (mapSet m a (getOrZero m a + 1)) words"
      using True by simp
    from Cons [of "mapSet m a (getOrZero m a + 1)"]
    have "fst ` set (foldl ?F (mapSet m a (getOrZero m a + 1)) words)
          \<subseteq> insert a (fst ` set m) \<union> set words"
      unfolding keys_mapSet .
    then show ?thesis unfolding step list.set(2) by blast
  next
    case False
    have step: "foldl ?F m (a # words) = foldl ?F m words"
      using False by simp
    from Cons [of m] show ?thesis unfolding step list.set(2) by blast
  qed
qed

lemma sortByCountDesc_keys: "fst ` set (sortByCountDesc m) = fst ` set m"
  by (simp add: sortByCountDesc_def)

lemma extractLegalTerms_keys: "fst ` set (extractLegalTerms words) \<subseteq> set words"
  using count_keys_subset [of "[]" words]
  by (simp add: extractLegalTerms_def sortByCountDesc_keys)

lemma merge_entries_keys:
  "fst ` set (foldl (\<lambda>m (k, count). mapSet m k (getOrZero m k + count)) m entries)
   = fst ` set m \<union> fst ` set entries"
proof (induction entries arbitrary: m)
  case Nil
  show ?case by simp
next
  case (Cons e entries)
  obtain k c where e: "e = (k, c)" by (cases e)
  have "fst ` set (foldl (\<lambda>m (k, count). mapSet m k (getOrZero m k + count))
                     (mapSet m k (getOrZero m k + c)) entries)
        = insert k (fst ` set m) \<union> fst ` set entries"
    using Cons [of "mapSet m k (getOrZero m k + c)"] by (simp only: keys_mapSet)
  then show ?case by (simp add: e)
qed

lemma foldl_merge_keys:
  "fst ` set (foldl (\<lambda>merged entries.
              foldl (\<lambda>m (k, count). mapSet m k (getOrZero m k + count)) merged entries)
       m entryLists)
   = fst ` set m \<union> (\<Union>entries \<in> set entryLists. fst ` set entries)"
proof (induction entryLists arbitrary: m)
  case Nil
  show ?case by simp
next
  case (Cons es entryLists)
  show ?case
    using Cons [of "foldl (\<lambda>m (k, count). mapSet m k (getOrZero m k + count)) m es"]
    by (simp add: merge_entries_keys Un_assoc)
qed

lemma mergeCounts_keys:
  "fst ` set (mergeCounts entryLists) = (\<Union>entries \<in> set entryLists. fst ` set entries)"
  unfolding mergeCounts_def by (simp add: foldl_merge_keys)

lemma chunk_legalTerms_no_space:
  assumes "cr \<in> set (chunkResultsOf toLowerCase analyzeSentiment latency text)"
    and "t \<in> fst ` set (ChunkResult.legalTerms cr)"
  shows "SP \<notin> set t"
proof -
  from assms(1) obtain ic where
    cr: "cr = callbackResult toLowerCase analyzeSentiment ic"
    by (auto simp: chunkResultsOf_eq)
  have "ChunkResult.legalTerms cr = [] \<or>
        ChunkResult.legalTerms cr = extractLegalTerms (extractWords toLowerCase (snd ic))"
    unfolding cr
    by (auto simp: callbackResult_def analyzeChunk_def degradedResult_def Let_def
        split: sum.splits if_splits)
  with assms(2) have "t \<in> fst ` set (extractLegalTerms (extractWords toLowerCase (snd ic)))"
    by auto
  then have "t \<in> set (extractWords toLowerCase (snd ic))"
    using extractLegalTerms_keys by blast
  then show ?thesis by (rule extractWords_no_space)
qed

lemma consolidated_legalTerms_no_space:
  assumes "t \<in> fst ` set (ConsolidatedResult.legalTerms
                     (fst (analyzeWithChunking toLowerCase analyzeSentiment latency text)))"
  shows "SP \<notin> set t"
proof -
  from assms have "t \<in> fst ` set (mergeCounts (map ChunkResult.legalTerms
                        (chunkResultsOf toLowerCase analyzeSentiment latency text)))"
    by (simp add: analyzeWithChunking_fields consolidateChunkResults_def Let_def
        sortByCountDesc_keys)
  then obtain cr where "cr \<in> set (chunkResultsOf toLowerCase analyzeSentiment latency text)"
    "t \<in> fst ` set (ChunkResult.legalTerms cr)"
    unfolding mergeCounts_keys by auto
  then show ?thesis by (rule chunk_legalTerms_no_space)
qed

lemma direct_legalTerms_no_space:
  assumes "t \<in> fst ` set (ConsolidatedResult.legalTerms (performBasicAnalysis toLowerCase text))"
  shows "SP \<notin> set t"
proof -
  from assms have "t \<in> fst ` set (extractLegalTerms (extractWords toLowerCase text))"
    by (simp add: performBasicAnalysis_def Let_def)
  then have "t \<in> set (extractWords toLowerCase text)"
    using extractLegalTerms_keys by blast
  then show ?thesis by (rule extractWords_no_space)
qed

lemma sample_chunks: "createChunks sampleText = [sampleText]"
  by code_simp

lemma sample_terms:
  "extractLegalTerms (extractWords (\<lambda>s. s) sampleText) = [(ascii ''contrato'', 1)]"
  by code_simp

lemma sample_chunk_terms:
  "map ChunkResult.legalTerms (chunkResultsOf (\<lambda>s. s) okProvider (\<lambda>i. 0) sampleText)
   = [ [(ascii ''contrato'', 1)] ]"
  by (simp add: chunkResultsOf_eq sample_chunks callbackResult_def analyzeChunk_def Let_def
      okProvider_def sample_terms)

text \<open>
  C10: the entries of the vocabulary that hold a space are \<open>coisa julgada\<close>,
  \<open>tr..nsito em julgado\<close> (a-circumflex is 226), \<open>lucro cessante\<close> and
  \<open>dano emergente\<close>; for every text, whatever lower-casing, provider and order of
  completion, none of them is a term of the \<open>legalTerms\<close> of a chunk result, of the
  consolidated result, or of the analysis of a text that is not chunked.
\<close>

theorem multiword_terms_never_listed:
  "multiWordTerms = [ascii ''coisa julgada'', ascii ''tr'' @ [226] @ ascii ''nsito em julgado'',
                     ascii ''lucro cessante'', ascii ''dano emergente''] \<and>
   (\<forall>t \<in> set multiWordTerms.
      (\<forall>cr \<in> set (chunkResultsOf toLowerCase analyzeSentiment latency text).
         t \<notin> fst ` set (ChunkResult.legalTerms cr)) \<and>
      t \<notin> fst ` set (ConsolidatedResult.legalTerms
                         (fst (analyzeWithChunking toLowerCase analyzeSentiment latency text))) \<and>
      t \<notin> fst ` set (ConsolidatedResult.legalTerms (performBasicAnalysis toLowerCase text)))"
proof (intro conjI ballI)
  show "multiWordTerms = [ascii ''coisa julgada'', ascii ''tr'' @ [226] @ ascii ''nsito em julgado'',
                     ascii ''lucro cessante'', ascii ''dano emergente'']"
    by (rule multiWordTerms_eq)
next
  fix t cr
  assume "t \<in> set multiWordTerms"
  then have sp: "SP \<in> set t" by (simp add: multiWordTerms_def)
  assume "cr \<in> set (chunkResultsOf toLowerCase analyzeSentiment latency text)"
  then show "t \<notin> fst ` set (ChunkResult.legalTerms cr)"
    using chunk_legalTerms_no_space sp by blast
next
  fix t
  assume "t \<in> set multiWordTerms"
  then have sp: "SP \<in> set t" by (simp add: multiWordTerms_def)
  then show "t \<notin> fst ` set (ConsolidatedResult.legalTerms
                         (fst (analyzeWithChunking toLowerCase analyzeSentiment latency text)))"
    using consolidated_legalTerms_no_space by blast
next
  fix t
  assume "t \<in> set multiWordTerms"
  then have sp: "SP \<in> set t" by (simp add: multiWordTerms_def)
  then show "t \<notin> fst ` set (ConsolidatedResult.legalTerms (performBasicAnalysis toLowerCase text))"
    using direct_legalTerms_no_space by blast
qed

text \<open>
  On \<open>contrato coisa julgada\<close> the one chunk lists \<open>contrato\<close>, and not
  \<open>coisa julgada\<close>.
\<close>

theorem multiword_terms_never_listed_witness:
  "ascii ''coisa julgada'' \<in> set multiWordTerms \<and>
   chunkResultsOf (\<lambda>s. s) okProvider (\<lambda>i. 0) sampleText ! 0
     \<in> set (chunkResultsOf (\<lambda>s. s) okProvider (\<lambda>i. 0) sampleText) \<and>
   ChunkResult.legalTerms (chunkResultsOf (\<lambda>s. s) okProvider (\<lambda>i. 0) sampleText ! 0)
     = [(ascii ''contrato'', 1)] \<and>
   ascii ''coisa julgada''
     \<notin> fst ` set (ChunkResult.legalTerms
                     (chunkResultsOf (\<lambda>s. s) okProvider (\<lambda>i. 0) sampleText ! 0)) \<and>
   ascii ''coisa julgada'' \<notin> fst ` set (ConsolidatedResult.legalTerms
      (fst (analyzeWithChunking (\<lambda>s. s) okProvider (\<lambda>i. 0) sampleText)))"
proof -
  let ?crs = "chunkResultsOf (\<lambda>s. s) okProvider (\<lambda>i. 0) sampleText"
  have m: "ascii ''coisa julgada'' \<in> set multiWordTerms"
    by (simp add: multiWordTerms_eq)
  have "length (map ChunkResult.legalTerms ?crs) = 1"
    by (simp only: sample_chunk_terms list.size One_nat_def add_0)
  then have n: "0 < length ?crs" by simp
  then have e: "?crs ! 0 \<in> set ?crs" by (rule nth_mem)
  have "map ChunkResult.legalTerms ?crs ! 0 = ChunkResult.legalTerms (?crs ! 0)"
    using n by (rule nth_map)
  then have t: "ChunkResult.legalTerms (?crs ! 0) = [(ascii ''contrato'', 1)]"
    by (simp only: sample_chunk_terms nth_Cons_0)
  from multiword_terms_never_listed [of "\<lambda>s. s" okProvider "\<lambda>i. 0" sampleText] m e t
  show ?thesis by blast
qed


section \<open>The cache\<close>

text \<open>
  C5, as stated, at \<open>ttl = 0\<close>: \<open>set(k, 7, 0)\<close> at time 0 with the default of 7200000 ms.
  By the claim the entry expires at time 0, so a \<open>get\<close> at time 1 should miss; the code
  takes the default for a \<open>ttl\<close> of 0 (\<open>ttl || config.cache.ttl\<close>) and returns the value.
\<close>

theorem cache_ttl_zero_counterexample:
  "specExpiry (Some 0) 7200000 0 < 1 \<and>
   fst (get (ascii ''k'') 1 (set_cache 7200000 (ascii ''k'') 7 (Some 0) 0 emptyCache)) = Some 7"
  by (simp add: specExpiry_def get_def set_cache_def ttlOrDefault_def emptyCache_def)

text \<open>
  C5, amended: after \<open>set(key, value, ttl)\<close> at the time \<open>now\<close>, the entry expires at
  \<open>now + ttl\<close> when a \<open>ttl\<close> other than 0 is given and at \<open>now\<close> plus the configured
  default when \<open>ttl\<close> is absent or 0; a \<open>get(key)\<close> not after the expiry returns the
  stored value (also after a sweep no later than the \<open>get\<close>), and a \<open>get(key)\<close> after
  it returns nothing and removes the entry.
\<close>

theorem cache_set_then_get:
  "(t \<le> now + ttlOrDefault ttl configTtl \<longrightarrow>
      fst (get key t (set_cache configTtl key value ttl now cs)) = Some value \<and>
      (\<forall>s \<le> t. fst (get key t (cleanup s (set_cache configTtl key value ttl now cs))) = Some value)) \<and>
   (now + ttlOrDefault ttl configTtl < t \<longrightarrow>
      fst (get key t (set_cache configTtl key value ttl now cs)) = None \<and>
      cache (snd (get key t (set_cache configTtl key value ttl now cs))) key = None) \<and>
   ttlOrDefault ttl configTtl = (case ttl of None \<Rightarrow> configTtl
                                 | Some d \<Rightarrow> if d = 0 then configTtl else d)"
  by (auto simp: get_def set_cache_def cleanup_def ttlOrDefault_def Let_def split: option.splits)

theorem cache_set_then_get_witness:
  "(500 :: int) \<le> 0 + ttlOrDefault (Some 1000) 7200000 \<and>
   fst (get (ascii ''k'') 500 (set_cache 7200000 (ascii ''k'') 7 (Some 1000) 0 emptyCache)) = Some 7 \<and>
   (400 :: int) \<le> 500 \<and>
   fst (get (ascii ''k'') 500
          (cleanup 400 (set_cache 7200000 (ascii ''k'') 7 (Some 1000) 0 emptyCache))) = Some 7 \<and>
   0 + ttlOrDefault (Some 1000) 7200000 < (1001 :: int) \<and>
   fst (get (ascii ''k'') 1001 (set_cache 7200000 (ascii ''k'') 7 (Some 1000) 0 emptyCache)) = None"
proof -
  have a: "(500 :: int) \<le> 0 + ttlOrDefault (Some 1000) 7200000"
    and b: "0 + ttlOrDefault (Some 1000) 7200000 < (1001 :: int)"
    by (simp_all add: ttlOrDefault_def)
  have c: "(400 :: int) \<le> 500" by simp
  from cache_set_then_get [of 500 0 "Some 1000" 7200000 "ascii ''k''" 7 emptyCache]
    cache_set_then_get [of 1001 0 "Some 1000" 7200000 "ascii ''k''" 7 emptyCache] a b c
  show ?thesis by blast
qed

section \<open>The content fingerprint\<close>









section \<open>The in-memory queue\<close>

lemma find_Some_holds: "find P xs = Some x \<Longrightarrow> P x \<and> x \<in> set xs"
  by (induction xs) (auto split: if_splits)

lemma getNextJob_not_claimed:
  assumes "getNextJob q = (Some job, q')"
  shows "analysisId job \<notin> set (processing q) \<and> analysisId job \<in> set (processing q') \<and>
         job \<in> set (memoryQueue q)"
proof -
  from assms have f: "find (\<lambda>j. analysisId j \<notin> set (processing q)) (memoryQueue q) = Some job"
    and q': "q' = q\<lparr>processing := setAdd (analysisId job) (processing q)\<rparr>"
    by (auto simp: getNextJob_def split: option.splits)
  from find_Some_holds [OF f] q' show ?thesis
    by (simp add: setAdd_def)
qed

lemma failJob_terminal:
  assumes "find (\<lambda>j. analysisId j = jobId) (memoryQueue q) = Some job"
    and "maxRetries \<le> attempts job + 1"
  shows "jobId \<notin> set (processing (failJob maxRetries now jobId err q)) \<and>
         jobId \<notin> analysisId ` set (memoryQueue (failJob maxRetries now jobId err q)) \<and>
         events (failJob maxRetries now jobId err q)
           = events q @ [JobFailed (job\<lparr>attempts := attempts job + 1\<rparr>) err] \<and>
         timers (failJob maxRetries now jobId err q) = timers q"
  using assms by (auto simp: failJob_def Let_def setDelete_def)

lemma failJob_retry:
  assumes "find (\<lambda>j. analysisId j = jobId) (memoryQueue q) = Some job"
    and "attempts job + 1 < maxRetries"
  shows "timers (failJob maxRetries now jobId err q)
           = timers q @ [(now + 2 ^ (attempts job + 1) * 1000, jobId)] \<and>
         memoryQueue (failJob maxRetries now jobId err q) = bumpAttempts jobId (memoryQueue q) \<and>
         jobId \<notin> set (processing (failJob maxRetries now jobId err q)) \<and>
         events (failJob maxRetries now jobId err q) = events q"
  using assms by (auto simp: failJob_def Let_def setDelete_def)

lemmas queue_defs =
  step_def tryProcessNext_def processNextJob_def getNextJob_def addJob_def failJob_def
  jobFailed_def jobSucceeded_def completeJob_def retryCallback_def initialSystem_def job1_def
  calculatePriority_def setAdd_def setDelete_def Let_def ascii_def

text \<open>
  C3, the retry branch, on the code: \<open>job-1\<close> is submitted and dispatched at time 0 and
  fails at time 1000, its first failure of three allowed. \<open>failJob\<close> sets the timer for
  time 3000 (\<open>2 ^ 1 * 1000\<close> ms later) but has already taken the id out of
  \<open>processing\<close>, so when the polling loop wakes at time 1500 \<open>getNextJob\<close> hands the
  job out again: it is running while its timer is still pending.
\<close>

theorem retry_before_backoff:
  "map_option (\<lambda>s. (timers (fst s), processing (fst s), running (snd s),
                     map attempts (memoryQueue (fst s))))
     (run 3 2 0 [(0, Submit job1), (1000, Fail (ascii ''job-1'') (Error [])), (1500, Poll)]
        initialSystem)
   = Some ([(3000, ascii ''job-1'')], [ascii ''job-1''], [ascii ''job-1''], [1])"
  by (simp add: queue_defs)

text \<open>
  C4, on the code: after the same failure the polling loop dispatches \<open>job-1\<close> again at
  time 2000; at time 3000 the timer fires, its callback takes the id out of
  \<open>processing\<close> although that second run has not ended, and the \<open>job:added\<close> listener
  dispatches the job once more: two calls of \<open>processJob\<close> run the same job at once.
\<close>

theorem job_dispatched_twice:
  "map_option (\<lambda>s. (processing (fst s), running (snd s), activeJobs (snd s)))
     (run 3 2 0 [(0, Submit job1), (1000, Fail (ascii ''job-1'') (Error [])), (2000, Poll),
                 (3000, Fire (3000, ascii ''job-1''))] initialSystem)
   = Some ([ascii ''job-1''], [ascii ''job-1'', ascii ''job-1''], [ascii ''job-1''])"
  by (simp add: queue_defs)

end
